theory Spec2Isabelle
  imports Main "HOL-Library.Word" "HOL-Library.Sublist"
begin

section \<open>The connection layer of anova_wifi (connection.py)\<close>

text \<open>
  The theory embeds the class \<^verbatim>\<open>AnovaConnection\<close> of
  \<^verbatim>\<open>src/anova_wifi/connection.py\<close>. The class runs on one asyncio event loop, so
  its coroutines only interleave at their \<^verbatim>\<open>await\<close> points; every definition below
  is one atomic piece of a coroutine, from one suspension point to the next.

  What lies outside the file is taken as follows.
  \<^item> \<^verbatim>\<open>Encoder\<close> and \<^verbatim>\<open>AnovaEvent\<close> (modules \<^verbatim>\<open>encoding\<close> and \<^verbatim>\<open>event\<close>) are
    parameters, collected in the record \<open>codec\<close>; decoding and event parsing may raise.
  \<^item> The event callback is a caller-supplied coroutine; it is a function from the event
    to the exception it raises, if any, and runs without being interleaved.
  \<^item> The stream writer follows \<^verbatim>\<open>asyncio.StreamWriter\<close>: \<^verbatim>\<open>write\<close> never raises;
    \<^verbatim>\<open>drain\<close> and \<^verbatim>\<open>wait_closed\<close> return, suspend or raise according to the state of
    the transport, which \<^verbatim>\<open>writer.close()\<close> and the event loop change. A transport
    error is known to the connection from the moment the event loop reports the loss;
    a write that is the first to meet a dead socket is not modelled apart from that.
  \<^item> \<^verbatim>\<open>asyncio.Future\<close>, \<^verbatim>\<open>asyncio.wait_for\<close> and \<^verbatim>\<open>asyncio.Task\<close> follow the
    documented behaviour of the standard library, quoted where each is modelled.
  \<^item> Exceptions that end the whole process (\<^verbatim>\<open>KeyboardInterrupt\<close>, \<^verbatim>\<open>SystemExit\<close>)
    and the cancellation of a task that runs \<^verbatim>\<open>send_command\<close> or \<^verbatim>\<open>close\<close> are not
    modelled.
\<close>

subsection \<open>Exceptions, log records and effects\<close>

type_synonym bytes = "8 word list"

text \<open>
  \<open>OtherException cls msg\<close> is an instance of any subclass of \<^verbatim>\<open>Exception\<close> other
  than \<^verbatim>\<open>ConnectionResetError\<close>, with class name \<open>cls\<close> and \<^verbatim>\<open>str(e) = msg\<close>.
  \<^verbatim>\<open>asyncio.CancelledError\<close> derives from \<^verbatim>\<open>BaseException\<close>, not from \<^verbatim>\<open>Exception\<close>.
\<close>

datatype exn = ConnectionResetError | CancelledError | OtherException string string

datatype level = Debug | Info | Warning | Error

text \<open>
  What a coroutine does to the world outside the connection object, in program order:
  the records it hands to the module-level logger, the calls on the stream writer, and
  the invocations of the event callback.
\<close>

datatype 'ev effect =
    Log level string
  | Write bytes
  | Drain
  | WriterClose
  | WaitClosed
  | Callback 'ev

record 'ev codec =
  encode :: "string \<Rightarrow> bytes"
  decode :: "bytes \<Rightarrow> exn + string"
  is_event :: "string \<Rightarrow> bool"
  parse_event :: "string \<Rightarrow> exn + 'ev"

subsection \<open>Futures, the listening task and the transport\<close>

text \<open>
  An \<^verbatim>\<open>asyncio.Future\<close> is pending, holds a result, or is cancelled; \<^verbatim>\<open>done()\<close> is
  true in the last two states. Futures are objects: the connection and the coroutines
  hold references to them, so they live in a store (a list indexed by reference), and
  \<^verbatim>\<open>asyncio.Future()\<close> allocates at the end of it.
\<close>

datatype future = Pending | Result string | Cancelled

type_synonym store = "future list"

definition look :: "store \<Rightarrow> nat \<Rightarrow> future" where
  "look h f = (if f < length h then h ! f else Cancelled)"

fun fut_done :: "future \<Rightarrow> bool" where
  "fut_done Pending = False"
| "fut_done (Result r) = True"
| "fut_done Cancelled = True"

text \<open>
  The task created by \<^verbatim>\<open>asyncio.create_task(self._listen())\<close>: scheduled but not yet
  run, suspended in \<^verbatim>\<open>reader.read\<close>, either of the two with \<^verbatim>\<open>cancel()\<close> called on
  it and not run since, finished because the coroutine returned, or cancelled (it ended
  with \<^verbatim>\<open>CancelledError\<close>).
\<close>

datatype task =
    TaskCreated
  | TaskReading
  | TaskCreatedCancel
  | TaskReadingCancel
  | TaskReturned
  | TaskCancelled

text \<open>
  The transport under the stream writer: open; closing, once \<^verbatim>\<open>writer.close()\<close> has
  been called and until the event loop calls \<^verbatim>\<open>connection_lost\<close>; lost, after that
  call, with the error it was given (\<open>None\<close> after a clean close). The flag
  \<open>writer_paused\<close> is the protocol's flow control: the write buffer is over its
  high-water mark.
\<close>

datatype transport = WriterOpen | WriterClosing | WriterLost "exn option"

text \<open>What an \<^verbatim>\<open>await\<close> of something that yields no value does, run once.\<close>

datatype wait = Waits | Returns | Raises exn

record 'ev conn =
  response_future :: "nat option"
  event_callback :: "('ev \<Rightarrow> exn option) option"
  listen_task :: "task option"
  writer :: transport
  writer_paused :: bool

text \<open>The class attributes all default to \<^verbatim>\<open>None\<close>; the writer is open.\<close>

definition init_conn :: "'ev conn" where
  "init_conn = \<lparr>response_future = None, event_callback = None, listen_task = None,
                writer = WriterOpen, writer_paused = False\<rparr>"

subsection \<open>The test \<^verbatim>\<open>"invalid command" in msg.lower()\<close>\<close>

text \<open>
  A \<open>char\<close> stands for the code point of the same number. \<^verbatim>\<open>str.lower\<close> moves the
  capital letters of ASCII and of Latin-1 by 32 and keeps every other code point below 256.
\<close>

definition lower_char :: "char \<Rightarrow> char" where
  "lower_char ch =
     (let n = (of_char ch :: nat)
      in if (65 \<le> n \<and> n \<le> 90) \<or> (192 \<le> n \<and> n \<le> 222 \<and> n \<noteq> 215)
         then char_of (n + 32) else ch)"

definition lower :: "string \<Rightarrow> string" where
  "lower s = map lower_char s"

fun starts_with :: "string \<Rightarrow> string \<Rightarrow> bool" where
  "starts_with [] s = True"
| "starts_with (p # ps) [] = False"
| "starts_with (p # ps) (x # xs) = (p = x \<and> starts_with ps xs)"

text \<open>\<open>str_contains p s\<close> is Python's \<^verbatim>\<open>p in s\<close> on strings.\<close>

fun str_contains :: "string \<Rightarrow> string \<Rightarrow> bool" where
  "str_contains p [] = (p = [])"
| "str_contains p (x # xs) = (starts_with p (x # xs) \<or> str_contains p xs)"

definition invalid_command :: "string \<Rightarrow> bool" where
  "invalid_command msg = str_contains ''invalid command'' (lower msg)"

subsection \<open>\<^verbatim>\<open>receive\<close>\<close>

text \<open>
  One call of \<^verbatim>\<open>receive()\<close>, given the bytes that \<^verbatim>\<open>reader.read(1024)\<close> returned.
  It assigns no attribute of the connection; it changes the store when it sets the
  result of the pending future. The value is \<open>Inl e\<close> when the call raises \<open>e\<close>.
\<close>

definition unexpected :: "string \<Rightarrow> 'ev effect" where
  "unexpected msg = Log Warning (''Received unexpected message: '' @ msg)"

definition receive ::
  "'ev codec \<Rightarrow> 'ev conn \<Rightarrow> store \<Rightarrow> bytes \<Rightarrow> (exn + string option) \<times> store \<times> 'ev effect list"
where
  "receive cd c h data =
     (if data = [] then
        (Inl ConnectionResetError, h, [Log Error ''Connection closed by remote host''])
      else
        (case decode cd data of
           Inl e \<Rightarrow> (Inl e, h, [])
         | Inr msg \<Rightarrow>
            (let fx = [Log Debug (''Received message: '' @ msg)] in
             if invalid_command msg then
               (Inr None, h, fx @ [Log Error (''Received invalid command, skipping: '' @ msg)])
             else if is_event cd msg then
               (case event_callback c of
                  None \<Rightarrow> (Inr (Some msg), h, fx)
                | Some cb \<Rightarrow>
                   (case parse_event cd msg of
                      Inl e \<Rightarrow> (Inl e, h, fx)
                    | Inr ev \<Rightarrow>
                       (case cb ev of
                          Some e \<Rightarrow> (Inl e, h, fx @ [Callback ev])
                        | None \<Rightarrow> (Inr (Some msg), h, fx @ [Callback ev]))))
             else
               (case response_future c of
                  None \<Rightarrow> (Inr (Some msg), h, fx @ [unexpected msg])
                | Some f \<Rightarrow>
                   if \<not> fut_done (look h f) then (Inr (Some msg), h[f := Result msg], fx)
                   else (Inr (Some msg), h, fx @ [unexpected msg])))))"

subsection \<open>\<^verbatim>\<open>_listen\<close>, \<^verbatim>\<open>start_listening\<close>, \<^verbatim>\<open>set_event_callback\<close>\<close>

text \<open>The three \<^verbatim>\<open>except\<close> clauses of \<^verbatim>\<open>_listen\<close>, in the order of the source.\<close>

fun listen_except :: "exn \<Rightarrow> 'ev effect list" where
  "listen_except ConnectionResetError = [Log Debug ''Connection closed by remote host'']"
| "listen_except CancelledError = [Log Debug ''Listening task cancelled'']"
| "listen_except (OtherException cls msg) = [Log Error (''Error in listening task: '' @ msg)]"

text \<open>
  The loop of \<^verbatim>\<open>_listen\<close>, run on the reads that the stream delivers, in order, while
  no other coroutine changes the attributes of the connection (the event loop below
  delivers one read at a time, between other events). When the reads run out the task
  is suspended in \<^verbatim>\<open>reader.read\<close>; when \<^verbatim>\<open>receive\<close> raises, one of the handlers
  runs, the coroutine returns, and the reads that remain are not taken.
\<close>

fun listen ::
  "'ev codec \<Rightarrow> 'ev conn \<Rightarrow> store \<Rightarrow> bytes list \<Rightarrow> task \<times> store \<times> 'ev effect list"
where
  "listen cd c h [] = (TaskReading, h, [])"
| "listen cd c h (d # ds) =
     (case receive cd c h d of
        (Inl e, h', fx) \<Rightarrow> (TaskReturned, h', fx @ listen_except e)
      | (Inr r, h', fx) \<Rightarrow>
         (case listen cd c h' ds of (t, h'', fx') \<Rightarrow> (t, h'', fx @ fx')))"

definition start_listening :: "'ev conn \<Rightarrow> 'ev conn" where
  "start_listening c =
     (case listen_task c of
        None \<Rightarrow> c\<lparr>listen_task := Some TaskCreated\<rparr>
      | Some t \<Rightarrow> c)"

definition set_event_callback :: "'ev conn \<Rightarrow> ('ev \<Rightarrow> exn option) \<Rightarrow> 'ev conn" where
  "set_event_callback c callback = c\<lparr>event_callback := Some callback\<rparr>"

subsection \<open>\<^verbatim>\<open>send_command\<close>\<close>

text \<open>
  A call of \<^verbatim>\<open>send_command\<close> is suspended in the \<^verbatim>\<open>drain\<close> of line 24, in its
  \<^verbatim>\<open>sleep(0)\<close> (\<open>DrainSleep\<close>) or on the flow-control waiter (\<open>DrainWait\<close>); is
  suspended in \<^verbatim>\<open>wait_for\<close> on the future it created (\<open>WaitFor\<close>); has lost that wait
  to the timeout and is scheduled to run its \<^verbatim>\<open>except\<close> clause (\<open>TimedOut\<close>); is
  suspended in the plain \<^verbatim>\<open>await\<close> of line 34 (\<open>Await\<close>); or has completed (\<open>Done\<close>)
  by returning or by raising.
\<close>

datatype outcome = Returned string | Raised exn

datatype phase = DrainSleep | DrainWait | WaitFor nat | TimedOut | Await nat | Done outcome

record call =
  cmd :: string
  phase :: phase

text \<open>
  \<^verbatim>\<open>FlowControlMixin._drain_helper\<close>, to its \<^verbatim>\<open>await\<close>: it raises
  \<^verbatim>\<open>ConnectionResetError\<close> once the connection is lost, returns when writing is not
  paused, and waits on a flow-control waiter otherwise.
\<close>

definition drain_helper :: "'ev conn \<Rightarrow> wait" where
  "drain_helper c =
     (case writer c of
        WriterLost x \<Rightarrow> Raises ConnectionResetError
      | _ \<Rightarrow> if writer_paused c then Waits else Returns)"

text \<open>
  \<^verbatim>\<open>StreamWriter.drain\<close>, to its first suspension: it raises the error that the reader
  holds (the one the connection was lost with); on a transport that is closing it
  yields to the event loop with \<^verbatim>\<open>sleep(0)\<close>; otherwise it runs the helper. The second
  component is the phase in which the call stays when the drain is suspended.
\<close>

definition drain :: "'ev conn \<Rightarrow> wait \<times> phase" where
  "drain c =
     (case writer c of
        WriterLost (Some e) \<Rightarrow> (Raises e, DrainSleep)
      | WriterOpen \<Rightarrow> (drain_helper c, DrainWait)
      | _ \<Rightarrow> (Waits, DrainSleep))"

text \<open>
  The flow-control waiter, when the call is run again: \<^verbatim>\<open>resume_writing\<close> gives it a
  result, and so does the loss of the connection without an error; a loss with an error
  gives it that error.
\<close>

definition drain_waiter :: "'ev conn \<Rightarrow> wait" where
  "drain_waiter c =
     (if \<not> writer_paused c then Returns
      else (case writer c of
              WriterLost None \<Rightarrow> Returns
            | WriterLost (Some e) \<Rightarrow> Raises e
            | _ \<Rightarrow> Waits))"

text \<open>
  Lines 25 to 30, up to the suspension in \<^verbatim>\<open>wait_for\<close>: the log record, and the fresh
  future stored in \<^verbatim>\<open>self.response_future\<close> whatever it held.
\<close>

definition send_command_install ::
  "'ev conn \<Rightarrow> store \<Rightarrow> string \<Rightarrow> 'ev conn \<times> store \<times> phase \<times> 'ev effect list"
where
  "send_command_install c h message =
     (c\<lparr>response_future := Some (length h)\<rparr>,
      h @ [Pending],
      WaitFor (length h),
      [Log Debug (''Sent message: '' @ message)])"

text \<open>
  What follows the \<^verbatim>\<open>await\<close> of line 24: when the drain raises, the exception leaves
  \<^verbatim>\<open>send_command\<close> at once, since lines 21 to 25 stand before the \<^verbatim>\<open>try\<close>: the slot is
  not touched and the \<^verbatim>\<open>finally\<close> clause does not run.
\<close>

definition send_command_drained ::
  "wait \<Rightarrow> phase \<Rightarrow> 'ev conn \<Rightarrow> store \<Rightarrow> string \<Rightarrow> 'ev conn \<times> store \<times> phase \<times> 'ev effect list"
where
  "send_command_drained r ph c h message =
     (case r of
        Waits \<Rightarrow> (c, h, ph, [])
      | Returns \<Rightarrow> send_command_install c h message
      | Raises e \<Rightarrow> (c, h, Done (Raised e), []))"

text \<open>Lines 21 to 24, and what follows as far as the call runs without suspending.\<close>

definition send_command_begin ::
  "'ev codec \<Rightarrow> 'ev conn \<Rightarrow> store \<Rightarrow> string \<Rightarrow> 'ev conn \<times> store \<times> phase \<times> 'ev effect list"
where
  "send_command_begin cd c h message =
     (case send_command_drained (fst (drain c)) (snd (drain c)) c h message of
        (c', h', ph, fx) \<Rightarrow>
          (c', h', ph, [Write (encode cd message), Write [0x16], Drain] @ fx))"

text \<open>The \<^verbatim>\<open>finally\<close> clause, line 36.\<close>

definition finally_clause :: "'ev conn \<Rightarrow> 'ev conn" where
  "finally_clause c = c\<lparr>response_future := None\<rparr>"

text \<open>
  Awaiting a future: the coroutine stays suspended while the future is pending, gets
  the result of a finished one, and gets \<^verbatim>\<open>CancelledError\<close> from a cancelled one.
\<close>

fun await_future :: "future \<Rightarrow> outcome option" where
  "await_future Pending = None"
| "await_future (Result r) = Some (Returned r)"
| "await_future Cancelled = Some (Raised CancelledError)"

text \<open>
  The timeout of \<^verbatim>\<open>asyncio.wait_for(self.response_future, timeout=10)\<close> elapses while
  the future is pending. The library documents: ``If a timeout occurs, it cancels the
  task and raises \<^verbatim>\<open>TimeoutError\<close>. To avoid the task cancellation, wrap it in
  \<^verbatim>\<open>shield()\<close>.'' The awaitable here is the future itself and the source does not shield
  it, so the future is cancelled.
\<close>

definition send_command_timeout :: "store \<Rightarrow> phase \<Rightarrow> store \<times> phase" where
  "send_command_timeout h ph =
     (case ph of
        WaitFor f \<Rightarrow> if look h f = Pending then (h[f := Cancelled], TimedOut) else (h, ph)
      | _ \<Rightarrow> (h, ph))"

text \<open>
  The event loop runs the call again. A call suspended in the drain goes on with the
  helper or with its waiter. In \<open>WaitFor\<close> the call goes on when its future is done:
  \<^verbatim>\<open>wait_for\<close> returns the result, or raises what the future raises, and the
  \<^verbatim>\<open>finally\<close> clause runs. In \<open>TimedOut\<close> the \<^verbatim>\<open>except\<close> clause runs: the warning, then
  \<^verbatim>\<open>await self.response_future\<close>, which reads the attribute again; awaiting \<^verbatim>\<open>None\<close>
  is a \<^verbatim>\<open>TypeError\<close>.
\<close>

definition await_none :: exn where
  "await_none =
     OtherException ''TypeError'' ''object NoneType can't be used in 'await' expression''"

definition send_command_resume ::
  "'ev conn \<Rightarrow> store \<Rightarrow> call \<Rightarrow> 'ev conn \<times> store \<times> phase \<times> 'ev effect list"
where
  "send_command_resume c h cl =
     (case phase cl of
        DrainSleep \<Rightarrow> send_command_drained (drain_helper c) DrainWait c h (cmd cl)
      | DrainWait \<Rightarrow> send_command_drained (drain_waiter c) DrainWait c h (cmd cl)
      | WaitFor f \<Rightarrow>
          (case await_future (look h f) of
             None \<Rightarrow> (c, h, WaitFor f, [])
           | Some out \<Rightarrow> (finally_clause c, h, Done out, []))
      | TimedOut \<Rightarrow>
          (let fx = [Log Warning (''No response received within timeout for command: '' @ cmd cl)]
           in case response_future c of
                None \<Rightarrow> (finally_clause c, h, Done (Raised await_none), fx)
              | Some g \<Rightarrow>
                 (case await_future (look h g) of
                    None \<Rightarrow> (c, h, Await g, fx)
                  | Some out \<Rightarrow> (finally_clause c, h, Done out, fx)))
      | Await g \<Rightarrow>
          (case await_future (look h g) of
             None \<Rightarrow> (c, h, Await g, [])
           | Some out \<Rightarrow> (finally_clause c, h, Done out, []))
      | Done out \<Rightarrow> (c, h, Done out, []))"

subsection \<open>\<^verbatim>\<open>close\<close>\<close>

text \<open>
  A call of \<^verbatim>\<open>close\<close> is suspended in the \<^verbatim>\<open>await\<close> of the task, line 83
  (\<open>CloseJoin\<close>), suspended in \<^verbatim>\<open>wait_closed\<close>, line 88 (\<open>CloseWait\<close>), or has completed,
  with the exception it raised, if any (\<open>CloseDone\<close>).
\<close>

datatype close_phase = CloseJoin | CloseWait | CloseDone "exn option"

text \<open>
  \<^verbatim>\<open>Task.cancel()\<close> asks for the cancellation of a task that has not finished and
  leaves a finished one as it is. The task itself ends later, when the event loop runs
  it: \<open>listen_wakeup\<close>. A task that has not run yet gets \<^verbatim>\<open>CancelledError\<close> before it
  enters the \<^verbatim>\<open>try\<close> of \<^verbatim>\<open>_listen\<close> and ends cancelled; a task suspended in
  \<^verbatim>\<open>reader.read\<close> gets it inside the \<^verbatim>\<open>try\<close>, so the second handler logs and the
  coroutine returns. Run without a cancellation, a new task enters the loop and
  suspends in its first read.
\<close>

fun task_cancel :: "task \<Rightarrow> task" where
  "task_cancel TaskCreated = TaskCreatedCancel"
| "task_cancel TaskReading = TaskReadingCancel"
| "task_cancel t = t"

fun listen_wakeup :: "task \<Rightarrow> task \<times> 'ev effect list" where
  "listen_wakeup TaskCreated = (TaskReading, [])"
| "listen_wakeup TaskCreatedCancel = (TaskCancelled, [])"
| "listen_wakeup TaskReadingCancel = (TaskReturned, listen_except CancelledError)"
| "listen_wakeup t = (t, [])"

text \<open>
  Awaiting the task: the caller is suspended until the task has finished, then gets
  nothing from a task that returned and \<^verbatim>\<open>CancelledError\<close> from a cancelled one.
\<close>

fun await_task :: "task \<Rightarrow> wait" where
  "await_task TaskReturned = Returns"
| "await_task TaskCancelled = Raises CancelledError"
| "await_task t = Waits"

text \<open>
  \<^verbatim>\<open>writer.close()\<close> starts the closing of an open transport and does nothing to any
  other. \<^verbatim>\<open>wait_closed()\<close> waits for \<^verbatim>\<open>connection_lost\<close>, then returns after a clean
  close and raises the error of a loss with an error, each time it is awaited.
\<close>

definition writer_close :: "transport \<Rightarrow> transport" where
  "writer_close t = (case t of WriterOpen \<Rightarrow> WriterClosing | _ \<Rightarrow> t)"

definition wait_closed :: "transport \<Rightarrow> wait" where
  "wait_closed t =
     (case t of
        WriterLost None \<Rightarrow> Returns
      | WriterLost (Some e) \<Rightarrow> Raises e
      | _ \<Rightarrow> Waits)"

text \<open>Line 88 once \<^verbatim>\<open>wait_closed\<close> is over, and line 89.\<close>

definition close_closed :: "wait \<Rightarrow> close_phase \<times> 'ev effect list" where
  "close_closed r =
     (case r of
        Waits \<Rightarrow> (CloseWait, [])
      | Returns \<Rightarrow> (CloseDone None, [Log Info ''Connection closed''])
      | Raises e \<Rightarrow> (CloseDone (Some e), []))"

text \<open>Lines 87 to 89, as far as the call runs without suspending.\<close>

definition close_writer :: "'ev conn \<Rightarrow> 'ev conn \<times> close_phase \<times> 'ev effect list" where
  "close_writer c =
     (case close_closed (wait_closed (writer_close (writer c))) of
        (ph, fx) \<Rightarrow> (c\<lparr>writer := writer_close (writer c)\<rparr>, ph, [WriterClose, WaitClosed] @ fx))"

text \<open>
  Lines 83 to 85, given what the \<^verbatim>\<open>await\<close> of the task does: the call stays suspended,
  or goes on to line 87 when the task returned or was cancelled (\<^verbatim>\<open>pass\<close>); any
  other exception would leave \<^verbatim>\<open>close\<close>.
\<close>

definition close_joined :: "wait \<Rightarrow> 'ev conn \<Rightarrow> 'ev conn \<times> close_phase \<times> 'ev effect list" where
  "close_joined r c =
     (case r of
        Waits \<Rightarrow> (c, CloseJoin, [])
      | Returns \<Rightarrow> close_writer c
      | Raises e \<Rightarrow>
         (case e of
            CancelledError \<Rightarrow> close_writer c
          | _ \<Rightarrow> (c, CloseDone (Some e), [])))"

text \<open>Line 80 on, as far as the call runs without suspending.\<close>

definition close_begin :: "'ev conn \<Rightarrow> 'ev conn \<times> close_phase \<times> 'ev effect list" where
  "close_begin c =
     (case listen_task c of
        None \<Rightarrow> close_writer c
      | Some t \<Rightarrow>
          close_joined (await_task (task_cancel t)) (c\<lparr>listen_task := Some (task_cancel t)\<rparr>))"

text \<open>The event loop runs a suspended call of \<^verbatim>\<open>close\<close> again.\<close>

definition close_resume ::
  "'ev conn \<Rightarrow> close_phase \<Rightarrow> 'ev conn \<times> close_phase \<times> 'ev effect list"
where
  "close_resume c ph =
     (case ph of
        CloseJoin \<Rightarrow>
          (case listen_task c of
             None \<Rightarrow> (c, CloseJoin, [])
           | Some t \<Rightarrow> close_joined (await_task t) c)
      | CloseWait \<Rightarrow>
          (case close_closed (wait_closed (writer c)) of (ph', fx) \<Rightarrow> (c, ph', fx))
      | CloseDone r \<Rightarrow> (c, CloseDone r, []))"

subsection \<open>The event loop\<close>

text \<open>
  The connection, the store of futures, the calls of \<^verbatim>\<open>send_command\<close> and of
  \<^verbatim>\<open>close\<close> made so far and the effects so far. An event is one atomic piece of a
  coroutine that the event loop runs, or something the transport does; an event that is
  not enabled leaves the world as it is. \<open>SendCommand\<close> and \<open>Close\<close> start a call and
  run it to its first suspension; \<open>Resume\<close> and \<open>ResumeClose\<close> run a suspended call
  again; \<open>RunListen\<close> runs the listening task when it has no read to take. After
  \<^verbatim>\<open>writer.close()\<close> the event loop calls \<^verbatim>\<open>connection_lost\<close> with no error, which
  is the event \<open>ConnectionLost None\<close>; a call of \<^verbatim>\<open>close\<close> has returned or raised
  only once its entry in \<open>closes\<close> is \<open>CloseDone\<close>.
\<close>

record 'ev world =
  conn :: "'ev conn"
  futures :: store
  calls :: "call list"
  trace :: "'ev effect list"
  closes :: "close_phase list"

datatype 'ev event =
    SendCommand string
  | Timeout nat
  | Resume nat
  | StartListening
  | Deliver bytes
  | SetEventCallback "'ev \<Rightarrow> exn option"
  | Close
  | ResumeClose nat
  | RunListen
  | ConnectionLost "exn option"
  | PauseWriting
  | ResumeWriting

definition init_world :: "'ev world" where
  "init_world = \<lparr>conn = init_conn, futures = [], calls = [], trace = [], closes = []\<rparr>"

definition listening :: "'ev conn \<Rightarrow> bool" where
  "listening c = (listen_task c = Some TaskCreated \<or> listen_task c = Some TaskReading)"

text \<open>
  The event loop calls \<^verbatim>\<open>connection_lost\<close>, once. The writer is lost; the reader gets
  the end of the stream or the error, so the read of a loop that is listening returns
  no bytes or raises that error, and the loop ends through its handlers.
\<close>

definition connection_lost ::
  "'ev codec \<Rightarrow> 'ev conn \<Rightarrow> store \<Rightarrow> exn option \<Rightarrow> 'ev conn \<times> 'ev effect list"
where
  "connection_lost cd c h x =
     (case writer c of
        WriterLost y \<Rightarrow> (c, [])
      | _ \<Rightarrow>
         (if listening c then
            (c\<lparr>writer := WriterLost x, listen_task := Some TaskReturned\<rparr>,
             (case x of
                None \<Rightarrow> snd (snd (listen cd c h [[]]))
              | Some e \<Rightarrow> listen_except e))
          else (c\<lparr>writer := WriterLost x\<rparr>, [])))"

text \<open>The transport pauses and resumes writing while the connection is not lost.\<close>

definition set_paused :: "bool \<Rightarrow> 'ev conn \<Rightarrow> 'ev conn" where
  "set_paused b c = (case writer c of WriterLost y \<Rightarrow> c | _ \<Rightarrow> c\<lparr>writer_paused := b\<rparr>)"

fun step :: "'ev codec \<Rightarrow> 'ev world \<Rightarrow> 'ev event \<Rightarrow> 'ev world" where
  "step cd w (SendCommand m) =
     (case send_command_begin cd (conn w) (futures w) m of
        (c', h', ph, fx) \<Rightarrow>
          w\<lparr>conn := c', futures := h', calls := calls w @ [\<lparr>cmd = m, phase = ph\<rparr>],
            trace := trace w @ fx\<rparr>)"
| "step cd w (Timeout i) =
     (if i < length (calls w) then
        (case send_command_timeout (futures w) (phase (calls w ! i)) of
           (h', ph) \<Rightarrow> w\<lparr>futures := h', calls := (calls w)[i := (calls w ! i)\<lparr>phase := ph\<rparr>]\<rparr>)
      else w)"
| "step cd w (Resume i) =
     (if i < length (calls w) then
        (case send_command_resume (conn w) (futures w) (calls w ! i) of
           (c', h', ph, fx) \<Rightarrow>
             w\<lparr>conn := c', futures := h',
               calls := (calls w)[i := (calls w ! i)\<lparr>phase := ph\<rparr>],
               trace := trace w @ fx\<rparr>)
      else w)"
| "step cd w StartListening = w\<lparr>conn := start_listening (conn w)\<rparr>"
| "step cd w (Deliver d) =
     (if listening (conn w) then
        (case listen cd (conn w) (futures w) [d] of
           (t, h', fx) \<Rightarrow>
             w\<lparr>conn := (conn w)\<lparr>listen_task := Some t\<rparr>, futures := h', trace := trace w @ fx\<rparr>)
      else w)"
| "step cd w (SetEventCallback cb) = w\<lparr>conn := set_event_callback (conn w) cb\<rparr>"
| "step cd w Close =
     (case close_begin (conn w) of
        (c', ph, fx) \<Rightarrow> w\<lparr>conn := c', trace := trace w @ fx, closes := closes w @ [ph]\<rparr>)"
| "step cd w (ResumeClose i) =
     (if i < length (closes w) then
        (case close_resume (conn w) (closes w ! i) of
           (c', ph, fx) \<Rightarrow>
             w\<lparr>conn := c', trace := trace w @ fx, closes := (closes w)[i := ph]\<rparr>)
      else w)"
| "step cd w RunListen =
     (case listen_task (conn w) of
        None \<Rightarrow> w
      | Some t \<Rightarrow>
         (case listen_wakeup t of
            (t', fx) \<Rightarrow> w\<lparr>conn := (conn w)\<lparr>listen_task := Some t'\<rparr>, trace := trace w @ fx\<rparr>))"
| "step cd w (ConnectionLost x) =
     (case connection_lost cd (conn w) (futures w) x of
        (c', fx) \<Rightarrow> w\<lparr>conn := c', trace := trace w @ fx\<rparr>)"
| "step cd w PauseWriting = w\<lparr>conn := set_paused True (conn w)\<rparr>"
| "step cd w ResumeWriting = w\<lparr>conn := set_paused False (conn w)\<rparr>"

definition run :: "'ev codec \<Rightarrow> 'ev world \<Rightarrow> 'ev event list \<Rightarrow> 'ev world" where
  "run cd w evs = foldl (step cd) w evs"

text \<open>
  Every reference held by the slot or by a call points into the store. The event loop
  keeps this, so \<open>look\<close> never falls back on its default in a run from \<open>init_world\<close>.
\<close>

definition slot_inside :: "nat \<Rightarrow> 'ev conn \<Rightarrow> bool" where
  "slot_inside n c = (case response_future c of None \<Rightarrow> True | Some f \<Rightarrow> f < n)"

fun phase_inside :: "nat \<Rightarrow> phase \<Rightarrow> bool" where
  "phase_inside n (WaitFor f) = (f < n)"
| "phase_inside n (Await g) = (g < n)"
| "phase_inside n ph = True"

definition wf_world :: "'ev world \<Rightarrow> bool" where
  "wf_world w =
     (slot_inside (length (futures w)) (conn w) \<and>
      list_all (\<lambda>cl. phase_inside (length (futures w)) (phase cl)) (calls w))"

text \<open>
  A call of \<^verbatim>\<open>send_command\<close> that is past line 27 and has not completed: its own
  waiter has been put in the slot.
\<close>

fun installed :: "phase \<Rightarrow> bool" where
  "installed (WaitFor f) = True"
| "installed TimedOut = True"
| "installed (Await g) = True"
| "installed ph = False"

subsection \<open>A stand-in for the absent modules\<close>

text \<open>
  \<^verbatim>\<open>encoding.py\<close> and \<^verbatim>\<open>event.py\<close> are not part of the sources at hand. To run the
  definitions on concrete inputs, \<open>plain_codec\<close> sends text as its character codes,
  refuses to decode a frame that holds a zero byte, takes a message that starts with
  \<open>event \<close> for an event, and parses an event to the text after that prefix, which must
  not be empty.
\<close>

definition plain_codec :: "string codec" where
  "plain_codec =
     \<lparr>encode = map of_char,
      decode = (\<lambda>bs. if 0 \<in> set bs then Inl (OtherException ''DecodeError'' ''zero byte in frame'')
                     else Inr (map (\<lambda>b. char_of (unat b)) bs)),
      is_event = starts_with ''event '',
      parse_event = (\<lambda>msg. if drop 6 msg = [] then Inl (OtherException ''EventParseError'' ''empty event'')
                            else Inr (drop 6 msg))\<rparr>"

section \<open>Properties\<close>

subsection \<open>Helper facts\<close>

lemma starts_with_prefix: "starts_with p s \<longleftrightarrow> prefix p s"
  by (induction p s rule: starts_with.induct) auto

lemma str_contains_sublist: "str_contains p s \<longleftrightarrow> sublist p s"
  by (induction s) (auto simp: starts_with_prefix sublist_Cons_right)

lemma lower_append: "lower (a @ b) = lower a @ lower b"
  by (simp add: lower_def)

text \<open>
  The test of line 62 holds exactly when some stretch of the message reads
  \<open>invalid command\<close> once its capitals are lowered.
\<close>

lemma invalid_command_iff:
  "invalid_command msg \<longleftrightarrow>
     (\<exists>pre mid suf. msg = pre @ mid @ suf \<and> lower mid = ''invalid command'')"
proof
  assume "invalid_command msg"
  then obtain ps ss where eq: "lower msg = ps @ ''invalid command'' @ ss"
    by (auto simp: invalid_command_def str_contains_sublist sublist_def)
  let ?pre = "take (length ps) msg"
  let ?rest = "drop (length ps) msg"
  have "msg = ?pre @ take 15 ?rest @ drop 15 ?rest"
    by (simp only: append_take_drop_id)
  moreover have "lower (take 15 ?rest) = ''invalid command''"
  proof -
    have "lower (take 15 ?rest) = take 15 (drop (length ps) (lower msg))"
      by (simp add: lower_def take_map drop_map)
    also have "\<dots> = ''invalid command''"
      by (simp add: eq)
    finally show ?thesis .
  qed
  ultimately show "\<exists>pre mid suf. msg = pre @ mid @ suf \<and> lower mid = ''invalid command''"
    by blast
next
  assume "\<exists>pre mid suf. msg = pre @ mid @ suf \<and> lower mid = ''invalid command''"
  then obtain pre mid suf where "msg = pre @ mid @ suf" and "lower mid = ''invalid command''"
    by blast
  then have "lower msg = lower pre @ ''invalid command'' @ lower suf"
    by (simp add: lower_append)
  then show "invalid_command msg"
    unfolding invalid_command_def str_contains_sublist sublist_def by blast
qed

lemma plain_decode_ok: "decode plain_codec [111, 107] = Inr ''ok''"
  by code_simp

lemma plain_decode_invalid:
  "decode plain_codec [73, 110, 118, 97, 108, 105, 100, 32, 67, 111, 109, 109, 97, 110, 100, 33]
     = Inr ''Invalid Command!''"
  by code_simp

lemma plain_decode_event:
  "decode plain_codec [101, 118, 101, 110, 116, 32, 115, 116, 111, 112] = Inr ''event stop''"
  by code_simp

lemma lower_Invalid_Command: "lower ''Invalid Command'' = ''invalid command''"
  by code_simp

lemma not_invalid_ok: "\<not> invalid_command ''ok''"
  by code_simp

lemma not_invalid_event_stop: "\<not> invalid_command ''event stop''"
  by code_simp

lemma plain_is_event_stop: "is_event plain_codec ''event stop''"
  by code_simp

lemma plain_not_event_ok: "\<not> is_event plain_codec ''ok''"
  by code_simp

lemma plain_parse_event_stop: "parse_event plain_codec ''event stop'' = Inr ''stop''"
  by code_simp

subsection \<open>References to futures stay inside the store\<close>

lemma receive_length: "length (fst (snd (receive cd c h d))) = length h"
  by (simp add: receive_def Let_def split: sum.splits option.splits)

lemma listen_length: "length (fst (snd (listen cd c h ds))) = length h"
proof (induction ds arbitrary: h)
  case Nil
  show ?case by simp
next
  case (Cons d ds)
  obtain r h' fx where rc: "receive cd c h d = (r, h', fx)"
    by (cases "receive cd c h d")
  have len: "length h' = length h"
    using receive_length [of cd c h d] rc by simp
  show ?case
  proof (cases r)
    case (Inl e)
    with rc len show ?thesis by simp
  next
    case (Inr v)
    obtain t h'' fx' where ls: "listen cd c h' ds = (t, h'', fx')"
      by (cases "listen cd c h' ds")
    with Cons.IH [of h'] have "length h'' = length h'"
      by simp
    with Inr rc len ls show ?thesis
      by simp
  qed
qed

lemma phase_inside_mono:
  "phase_inside n ph \<Longrightarrow> n \<le> m \<Longrightarrow> phase_inside m ph"
  by (cases ph) simp_all

lemma send_command_timeout_inside:
  assumes "phase_inside (length h) ph"
  shows "length (fst (send_command_timeout h ph)) = length h \<and>
         phase_inside (length h) (snd (send_command_timeout h ph))"
  using assms by (cases ph) (simp_all add: send_command_timeout_def)

lemma send_command_drained_inside:
  assumes "slot_inside (length h) c"
    and "phase_inside (length h) ph"
  shows "(case send_command_drained r ph c h m of
            (c', h', ph', fx) \<Rightarrow>
              length h \<le> length h' \<and> phase_inside (length h') ph' \<and> slot_inside (length h') c')"
  using assms
  by (cases r) (simp_all add: send_command_drained_def send_command_install_def slot_inside_def)

lemma send_command_resume_inside:
  assumes "phase_inside (length h) (phase cl)"
    and "slot_inside (length h) c"
  shows "(case send_command_resume c h cl of
            (c', h', ph', fx) \<Rightarrow>
              length h \<le> length h' \<and> phase_inside (length h') ph' \<and> slot_inside (length h') c')"
proof (cases "phase cl")
  case DrainSleep
  with send_command_drained_inside [OF assms(2), of DrainWait "drain_helper c" "cmd cl"]
  show ?thesis
    by (simp add: send_command_resume_def)
next
  case DrainWait
  with send_command_drained_inside [OF assms(2), of DrainWait "drain_waiter c" "cmd cl"]
  show ?thesis
    by (simp add: send_command_resume_def)
next
  case (WaitFor f)
  with assms show ?thesis
    by (cases "look h f") (simp_all add: send_command_resume_def finally_clause_def slot_inside_def)
next
  case TimedOut
  show ?thesis
  proof (cases "response_future c")
    case None
    with TimedOut assms show ?thesis
      by (simp add: send_command_resume_def finally_clause_def slot_inside_def)
  next
    case (Some g)
    with TimedOut assms show ?thesis
      by (cases "look h g")
        (simp_all add: send_command_resume_def finally_clause_def slot_inside_def)
  qed
next
  case (Await g)
  with assms show ?thesis
    by (cases "look h g") (simp_all add: send_command_resume_def finally_clause_def slot_inside_def)
next
  case (Done out)
  with assms show ?thesis
    by (simp add: send_command_resume_def)
qed

lemma calls_inside_mono:
  assumes "list_all (\<lambda>cl. phase_inside n (phase cl)) cs"
    and "n \<le> m"
  shows "list_all (\<lambda>cl. phase_inside m (phase cl)) cs"
  using assms phase_inside_mono by (auto simp: list_all_iff)

lemma close_writer_slot: "response_future (fst (close_writer c)) = response_future c"
  by (simp add: close_writer_def split: prod.splits)

lemma close_joined_slot: "response_future (fst (close_joined r c)) = response_future c"
  by (cases r) (simp_all add: close_joined_def close_writer_slot split: exn.splits)

lemma close_begin_slot: "response_future (fst (close_begin c)) = response_future c"
  by (cases "listen_task c") (simp_all add: close_begin_def close_writer_slot close_joined_slot)

lemma close_resume_slot: "response_future (fst (close_resume c ph)) = response_future c"
proof (cases ph)
  case CloseJoin
  then show ?thesis
    by (cases "listen_task c") (simp_all add: close_resume_def close_joined_slot)
next
  case CloseWait
  then show ?thesis
    by (simp add: close_resume_def split: prod.splits)
next
  case (CloseDone r)
  then show ?thesis
    by (simp add: close_resume_def)
qed

lemma connection_lost_slot:
  "response_future (fst (connection_lost cd c h x)) = response_future c"
  by (simp add: connection_lost_def split: transport.splits)

lemma wf_world_step:
  assumes "wf_world w"
  shows "wf_world (step cd w ev)"
proof (cases ev)
  case (SendCommand m)
  have slot: "slot_inside (length (futures w)) (conn w)"
    using assms by (simp add: wf_world_def)
  obtain c' h' ph fx where
    d: "send_command_drained (fst (drain (conn w))) (snd (drain (conn w))) (conn w) (futures w) m
          = (c', h', ph, fx)"
    by (cases "send_command_drained (fst (drain (conn w))) (snd (drain (conn w)))
          (conn w) (futures w) m")
  have "phase_inside (length (futures w)) (snd (drain (conn w)))"
    by (simp add: drain_def split: transport.splits option.splits)
  from send_command_drained_inside [OF slot this, of "fst (drain (conn w))" m] d
  have le: "length (futures w) \<le> length h'" and ph: "phase_inside (length h') ph"
    and c': "slot_inside (length h') c'"
    by simp_all
  have "list_all (\<lambda>cl. phase_inside (length h') (phase cl)) (calls w)"
    using assms le calls_inside_mono by (auto simp: wf_world_def)
  with SendCommand d ph c' show ?thesis
    by (simp add: wf_world_def send_command_begin_def)
next
  case (Timeout j)
  show ?thesis
  proof (cases "j < length (calls w)")
    case True
    obtain h' ph where t: "send_command_timeout (futures w) (phase (calls w ! j)) = (h', ph)"
      by (cases "send_command_timeout (futures w) (phase (calls w ! j))")
    have inside: "phase_inside (length (futures w)) (phase (calls w ! j))"
      using assms True by (simp add: wf_world_def list_all_length)
    from send_command_timeout_inside [OF inside] t
    have len: "length h' = length (futures w)" and ph: "phase_inside (length (futures w)) ph"
      by simp_all
    have "list_all (\<lambda>cl. phase_inside (length (futures w)) (phase cl))
        ((calls w)[j := (calls w ! j)\<lparr>phase := ph\<rparr>])"
      using assms ph True by (auto simp: wf_world_def list_all_length nth_list_update)
    with Timeout True assms t len show ?thesis
      by (simp add: wf_world_def slot_inside_def)
  next
    case False
    with Timeout assms show ?thesis by simp
  qed
next
  case (Resume j)
  show ?thesis
  proof (cases "j < length (calls w)")
    case True
    obtain c' h' ph fx where
      r: "send_command_resume (conn w) (futures w) (calls w ! j) = (c', h', ph, fx)"
      by (cases "send_command_resume (conn w) (futures w) (calls w ! j)")
    have inside: "phase_inside (length (futures w)) (phase (calls w ! j))"
      using assms True by (simp add: wf_world_def list_all_length)
    have slot: "slot_inside (length (futures w)) (conn w)"
      using assms by (simp add: wf_world_def)
    from send_command_resume_inside [OF inside slot] r
    have le: "length (futures w) \<le> length h'" and ph: "phase_inside (length h') ph"
      and c': "slot_inside (length h') c'"
      by simp_all
    have "list_all (\<lambda>cl. phase_inside (length h') (phase cl)) (calls w)"
      using assms le calls_inside_mono by (auto simp: wf_world_def)
    then have "list_all (\<lambda>cl. phase_inside (length h') (phase cl))
        ((calls w)[j := (calls w ! j)\<lparr>phase := ph\<rparr>])"
      using ph True by (auto simp: list_all_length nth_list_update)
    with Resume True r c' show ?thesis
      by (simp add: wf_world_def)
  next
    case False
    with Resume assms show ?thesis by simp
  qed
next
  case StartListening
  with assms show ?thesis
    by (simp add: wf_world_def start_listening_def slot_inside_def split: option.splits)
next
  case (Deliver d)
  show ?thesis
  proof (cases "listening (conn w)")
    case True
    obtain t h' fx where ls: "listen cd (conn w) (futures w) [d] = (t, h', fx)"
      by (cases "listen cd (conn w) (futures w) [d]")
    with listen_length [of cd "conn w" "futures w" "[d]"] have "length h' = length (futures w)"
      by simp
    with Deliver True assms ls show ?thesis
      by (simp add: wf_world_def slot_inside_def del: listen.simps)
  next
    case False
    with Deliver assms show ?thesis by simp
  qed
next
  case (SetEventCallback cb)
  with assms show ?thesis
    by (simp add: wf_world_def set_event_callback_def slot_inside_def)
next
  case Close
  obtain c' ph fx where cl: "close_begin (conn w) = (c', ph, fx)"
    by (cases "close_begin (conn w)")
  with close_begin_slot [of "conn w"] have "response_future c' = response_future (conn w)"
    by simp
  with Close cl assms show ?thesis
    by (simp add: wf_world_def slot_inside_def)
next
  case (ResumeClose j)
  show ?thesis
  proof (cases "j < length (closes w)")
    case True
    obtain c' ph fx where cl: "close_resume (conn w) (closes w ! j) = (c', ph, fx)"
      by (cases "close_resume (conn w) (closes w ! j)")
    with close_resume_slot [of "conn w" "closes w ! j"]
    have "response_future c' = response_future (conn w)"
      by simp
    with ResumeClose True cl assms show ?thesis
      by (simp add: wf_world_def slot_inside_def)
  next
    case False
    with ResumeClose assms show ?thesis by simp
  qed
next
  case RunListen
  with assms show ?thesis
    by (simp add: wf_world_def slot_inside_def split: option.splits prod.splits)
next
  case (ConnectionLost x)
  obtain c' fx where cl: "connection_lost cd (conn w) (futures w) x = (c', fx)"
    by (cases "connection_lost cd (conn w) (futures w) x")
  with connection_lost_slot [of cd "conn w" "futures w" x]
  have "response_future c' = response_future (conn w)"
    by simp
  with ConnectionLost cl assms show ?thesis
    by (simp add: wf_world_def slot_inside_def)
next
  case PauseWriting
  with assms show ?thesis
    by (simp add: wf_world_def slot_inside_def set_paused_def split: transport.splits)
next
  case ResumeWriting
  with assms show ?thesis
    by (simp add: wf_world_def slot_inside_def set_paused_def split: transport.splits)
qed

lemma wf_world_run: "wf_world w \<Longrightarrow> wf_world (run cd w evs)"
  unfolding run_def
  by (induction evs arbitrary: w) (simp_all add: wf_world_step)

lemma wf_world_reachable: "wf_world (run cd init_world evs)"
  by (rule wf_world_run) (simp add: wf_world_def init_world_def init_conn_def slot_inside_def)

subsection \<open>Claims about \<^verbatim>\<open>receive\<close>\<close>

text \<open>
  C5. A decoded message that contains \<open>invalid command\<close> in any mix of capitals and
  small letters is dropped after logging: \<^verbatim>\<open>receive\<close> returns \<^verbatim>\<open>None\<close>, the store of
  futures is as before (no waiter is resolved, whatever the connection holds), and the
  only effects are the two log records (the event callback is not invoked).
\<close>

theorem receive_drops_invalid_command:
  assumes "data \<noteq> []"
    and "decode cd data = Inr msg"
    and "msg = pre @ mid @ suf"
    and "lower mid = ''invalid command''"
  shows "receive cd c h data =
           (Inr None, h,
            [Log Debug (''Received message: '' @ msg),
             Log Error (''Received invalid command, skipping: '' @ msg)])"
proof -
  have "invalid_command msg"
    using assms(3,4) invalid_command_iff by blast
  with assms(1,2) show ?thesis
    by (simp add: receive_def)
qed

theorem receive_drops_invalid_command_witness:
  "receive plain_codec
     (init_conn\<lparr>response_future := Some 0, event_callback := Some (\<lambda>ev. None)\<rparr>) [Pending]
     [73, 110, 118, 97, 108, 105, 100, 32, 67, 111, 109, 109, 97, 110, 100, 33]
   = (Inr None, [Pending],
      [Log Debug ''Received message: Invalid Command!'',
       Log Error ''Received invalid command, skipping: Invalid Command!''])"
proof -
  have ne: "[73, 110, 118, 97, 108, 105, 100, 32, 67, 111, 109, 109, 97, 110, 100, 33] \<noteq> ([] :: bytes)"
    by simp
  have split: "''Invalid Command!'' = [] @ ''Invalid Command'' @ ''!''"
    by simp
  show ?thesis
    using receive_drops_invalid_command [OF ne plain_decode_invalid split lower_Invalid_Command]
    by simp
qed

text \<open>
  C9. A decoded message that reaches the classification of line 66 and is an event,
  while no event callback is registered, is discarded without a trace: \<^verbatim>\<open>receive\<close>
  returns the message, the store is as before even when a waiter is outstanding, and the
  only effect is the debug record of line 60 (no callback, no warning of an unexpected
  message).
\<close>

theorem receive_event_without_callback:
  assumes "data \<noteq> []"
    and "decode cd data = Inr msg"
    and "\<not> invalid_command msg"
    and "is_event cd msg"
    and "event_callback c = None"
  shows "receive cd c h data = (Inr (Some msg), h, [Log Debug (''Received message: '' @ msg)])"
  using assms by (simp add: receive_def)

theorem receive_event_without_callback_witness:
  "receive plain_codec (init_conn\<lparr>response_future := Some 0\<rparr>) [Pending]
     [101, 118, 101, 110, 116, 32, 115, 116, 111, 112]
   = (Inr (Some ''event stop''), [Pending], [Log Debug ''Received message: event stop''])"
proof -
  have ne: "[101, 118, 101, 110, 116, 32, 115, 116, 111, 112] \<noteq> ([] :: bytes)"
    by simp
  have cb: "event_callback (init_conn\<lparr>response_future := Some 0\<rparr> :: string conn) = None"
    by (simp add: init_conn_def)
  show ?thesis
    using receive_event_without_callback
      [OF ne plain_decode_event not_invalid_event_stop plain_is_event_stop cb]
    by simp
qed

text \<open>
  C4, as the source has it. A read of zero bytes makes \<^verbatim>\<open>receive\<close> raise
  \<^verbatim>\<open>ConnectionResetError\<close>. Otherwise, provided that decoding gives a message and that
  neither the parsing of an event nor the callback raises, the call takes exactly one of
  five routes, each with its own return value, store and effects: an invalid-command
  notice is logged and \<^verbatim>\<open>None\<close> returned; an event without a callback is returned
  and nothing else happens; an event with a callback is parsed and handed to the
  callback, once; a reply that finds a pending waiter in the slot becomes the result of
  that waiter and of no other future; a reply that finds the slot empty, or its future
  done, is logged as unexpected and kept nowhere. In the last case a \<^verbatim>\<open>send_command\<close>
  made right after the read gets a fresh pending waiter and stays suspended: the
  discarded reply is not handed to it.
\<close>

theorem receive_cycle:
  "receive cd c h [] =
     (Inl ConnectionResetError, h, [Log Error ''Connection closed by remote host'']) \<and>
   (data \<noteq> [] \<and> decode cd data = Inr msg \<longrightarrow>
     (invalid_command msg \<longrightarrow>
        receive cd c h data =
          (Inr None, h,
           [Log Debug (''Received message: '' @ msg),
            Log Error (''Received invalid command, skipping: '' @ msg)])) \<and>
     (\<not> invalid_command msg \<and> is_event cd msg \<and> event_callback c = None \<longrightarrow>
        receive cd c h data =
          (Inr (Some msg), h, [Log Debug (''Received message: '' @ msg)])) \<and>
     (\<forall>cb ev. \<not> invalid_command msg \<and> is_event cd msg \<and> event_callback c = Some cb \<and>
          parse_event cd msg = Inr ev \<and> cb ev = None \<longrightarrow>
        receive cd c h data =
          (Inr (Some msg), h, [Log Debug (''Received message: '' @ msg), Callback ev])) \<and>
     (\<forall>f. \<not> invalid_command msg \<and> \<not> is_event cd msg \<and> response_future c = Some f \<and>
          \<not> fut_done (look h f) \<longrightarrow>
        receive cd c h data =
          (Inr (Some msg), h[f := Result msg], [Log Debug (''Received message: '' @ msg)])) \<and>
     (\<not> invalid_command msg \<and> \<not> is_event cd msg \<and>
        (response_future c = None \<or> (\<exists>f. response_future c = Some f \<and> fut_done (look h f)))
      \<longrightarrow>
        receive cd c h data =
          (Inr (Some msg), h, [Log Debug (''Received message: '' @ msg), unexpected msg]) \<and>
        (\<forall>w m. conn w = c \<and> futures w = h \<and> listening c \<and> writer c = WriterOpen \<and>
             \<not> writer_paused c \<longrightarrow>
           phase (calls (run cd w [Deliver data, SendCommand m, Resume (length (calls w))])
                    ! length (calls w)) = WaitFor (length h) \<and>
           futures (run cd w [Deliver data, SendCommand m, Resume (length (calls w))])
             = h @ [Pending])))"
proof (intro conjI impI allI)
  show "receive cd c h [] =
     (Inl ConnectionResetError, h, [Log Error ''Connection closed by remote host''])"
    by (simp add: receive_def)
next
  assume "data \<noteq> [] \<and> decode cd data = Inr msg" and "invalid_command msg"
  then show "receive cd c h data =
      (Inr None, h,
       [Log Debug (''Received message: '' @ msg),
        Log Error (''Received invalid command, skipping: '' @ msg)])"
    by (simp add: receive_def)
next
  assume "data \<noteq> [] \<and> decode cd data = Inr msg"
    and "\<not> invalid_command msg \<and> is_event cd msg \<and> event_callback c = None"
  then show "receive cd c h data =
      (Inr (Some msg), h, [Log Debug (''Received message: '' @ msg)])"
    by (simp add: receive_def)
next
  fix cb ev
  assume "data \<noteq> [] \<and> decode cd data = Inr msg"
    and "\<not> invalid_command msg \<and> is_event cd msg \<and> event_callback c = Some cb \<and>
      parse_event cd msg = Inr ev \<and> cb ev = None"
  then show "receive cd c h data =
      (Inr (Some msg), h, [Log Debug (''Received message: '' @ msg), Callback ev])"
    by (simp add: receive_def)
next
  fix f
  assume "data \<noteq> [] \<and> decode cd data = Inr msg"
    and "\<not> invalid_command msg \<and> \<not> is_event cd msg \<and> response_future c = Some f \<and>
      \<not> fut_done (look h f)"
  then show "receive cd c h data =
      (Inr (Some msg), h[f := Result msg], [Log Debug (''Received message: '' @ msg)])"
    by (simp add: receive_def)
next
  assume d: "data \<noteq> [] \<and> decode cd data = Inr msg"
    and u: "\<not> invalid_command msg \<and> \<not> is_event cd msg \<and>
      (response_future c = None \<or> (\<exists>f. response_future c = Some f \<and> fut_done (look h f)))"
  then show rcv: "receive cd c h data =
      (Inr (Some msg), h, [Log Debug (''Received message: '' @ msg), unexpected msg])"
    by (auto simp: receive_def Let_def)
  fix w :: "'a world" and m
  assume w: "conn w = c \<and> futures w = h \<and> listening c \<and> writer c = WriterOpen \<and>
    \<not> writer_paused c"
  let ?n = "length (calls w)"
  have one: "listen cd c h [data] =
      (TaskReading, h, [Log Debug (''Received message: '' @ msg), unexpected msg])"
    using rcv by simp
  have w1: "step cd w (Deliver data) =
      w\<lparr>conn := c\<lparr>listen_task := Some TaskReading\<rparr>, futures := h,
        trace := trace w @ [Log Debug (''Received message: '' @ msg), unexpected msg]\<rparr>"
    using w one by simp
  have w3: "run cd w [Deliver data, SendCommand m, Resume ?n] =
      step cd (step cd (step cd w (Deliver data)) (SendCommand m)) (Resume ?n)"
    by (simp add: run_def)
  show "phase (calls (run cd w [Deliver data, SendCommand m, Resume (length (calls w))])
      ! length (calls w)) = WaitFor (length h)"
    unfolding w3 w1 using w
    by (simp add: send_command_begin_def send_command_drained_def send_command_install_def
        drain_def drain_helper_def send_command_resume_def look_def nth_append)
  show "futures (run cd w [Deliver data, SendCommand m, Resume (length (calls w))])
      = h @ [Pending]"
    unfolding w3 w1 using w
    by (simp add: send_command_begin_def send_command_drained_def send_command_install_def
        drain_def drain_helper_def send_command_resume_def look_def nth_append)
qed

theorem receive_cycle_witness:
  "receive plain_codec (init_conn\<lparr>event_callback := Some (\<lambda>ev. None)\<rparr>) [Pending]
     [101, 118, 101, 110, 116, 32, 115, 116, 111, 112]
   = (Inr (Some ''event stop''), [Pending],
      [Log Debug ''Received message: event stop'', Callback ''stop'']) \<and>
   receive plain_codec (init_conn\<lparr>response_future := Some 1\<rparr> :: string conn)
     [Result ''old'', Pending] [111, 107]
   = (Inr (Some ''ok''), [Result ''old'', Result ''ok''], [Log Debug ''Received message: ok'']) \<and>
   receive plain_codec (init_conn\<lparr>response_future := Some 0\<rparr> :: string conn) [Result ''old'']
     [111, 107]
   = (Inr (Some ''ok''), [Result ''old''],
      [Log Debug ''Received message: ok'', Log Warning ''Received unexpected message: ok''])"
proof -
  let ?ev = "[101, 118, 101, 110, 116, 32, 115, 116, 111, 112] :: bytes"
  let ?cb = "\<lambda>ev :: string. None :: exn option"
  let ?c1 = "init_conn\<lparr>event_callback := Some ?cb\<rparr> :: string conn"
  let ?c2 = "init_conn\<lparr>response_future := Some 1\<rparr> :: string conn"
  let ?c3 = "init_conn\<lparr>response_future := Some 0\<rparr> :: string conn"
  have ne1: "?ev \<noteq> []" and ne2: "[111, 107] \<noteq> ([] :: bytes)"
    by simp_all
  have route1: "\<not> invalid_command ''event stop'' \<and> is_event plain_codec ''event stop'' \<and>
      event_callback ?c1 = Some ?cb \<and> parse_event plain_codec ''event stop'' = Inr ''stop'' \<and>
      ?cb ''stop'' = None"
    by (simp add: not_invalid_event_stop plain_is_event_stop plain_parse_event_stop)
  have first: "receive plain_codec ?c1 [Pending] ?ev =
      (Inr (Some ''event stop''), [Pending],
       [Log Debug (''Received message: '' @ ''event stop''), Callback ''stop''])"
    using receive_cycle [of plain_codec ?c1 "[Pending]" ?ev "''event stop''"]
      ne1 plain_decode_event route1 by blast
  have route2: "\<not> invalid_command ''ok'' \<and> \<not> is_event plain_codec ''ok'' \<and>
      response_future ?c2 = Some 1 \<and> \<not> fut_done (look [Result ''old'', Pending] 1)"
    by (simp add: not_invalid_ok plain_not_event_ok look_def)
  have second: "receive plain_codec ?c2 [Result ''old'', Pending] [111, 107] =
      (Inr (Some ''ok''), [Result ''old'', Pending][1 := Result ''ok''],
       [Log Debug (''Received message: '' @ ''ok'')])"
    using receive_cycle [of plain_codec ?c2 "[Result ''old'', Pending]" "[111, 107]" "''ok''"]
      ne2 plain_decode_ok route2 by blast
  have route3: "\<not> invalid_command ''ok'' \<and> \<not> is_event plain_codec ''ok'' \<and>
      (response_future ?c3 = None \<or>
       (\<exists>f. response_future ?c3 = Some f \<and> fut_done (look [Result ''old''] f)))"
    by (simp add: not_invalid_ok plain_not_event_ok look_def)
  have third: "receive plain_codec ?c3 [Result ''old''] [111, 107] =
      (Inr (Some ''ok''), [Result ''old''],
       [Log Debug (''Received message: '' @ ''ok''), unexpected ''ok''])"
    using receive_cycle [of plain_codec ?c3 "[Result ''old'']" "[111, 107]" "''ok''"]
      ne2 plain_decode_ok route3 by blast
  from first second third show ?thesis
    by (simp add: unexpected_def)
qed

text \<open>
  C4 as stated fails: with a callback that raises, a call of \<^verbatim>\<open>receive\<close> whose read
  is not empty neither fails with the connection-closed signal nor returns.
\<close>

theorem receive_cycle_counterexample:
  "receive plain_codec
     (init_conn\<lparr>event_callback := Some (\<lambda>ev. Some (OtherException ''ValueError'' ''boom''))\<rparr>)
     [] [101, 118, 101, 110, 116, 32, 115, 116, 111, 112]
   = (Inl (OtherException ''ValueError'' ''boom''), [],
      [Log Debug ''Received message: event stop'', Callback ''stop''])"
  by (simp add: receive_def plain_decode_event not_invalid_event_stop plain_is_event_stop
      plain_parse_event_stop)

subsection \<open>Claims about the receive loop\<close>

text \<open>Whether \<^verbatim>\<open>receive\<close> raises does not depend on the store.\<close>

lemma receive_raises_iff:
  "(\<exists>e. fst (receive cd c h d) = Inl e) \<longleftrightarrow>
     d = [] \<or> (\<exists>e. decode cd d = Inl e) \<or>
     (\<exists>msg cb. decode cd d = Inr msg \<and> \<not> invalid_command msg \<and> is_event cd msg \<and>
        event_callback c = Some cb \<and>
        ((\<exists>e. parse_event cd msg = Inl e) \<or>
         (\<exists>ev e. parse_event cd msg = Inr ev \<and> cb ev = Some e)))"
  by (auto simp: receive_def Let_def split: sum.splits option.splits)

lemma listen_Cons_returns:
  assumes "fst (receive cd c h d) = Inr r"
  shows "fst (listen cd c h (d # ds)) = fst (listen cd c (fst (snd (receive cd c h d))) ds)"
  using assms by (cases "receive cd c h d") (auto split: prod.splits)

lemma listen_Cons_raises:
  assumes "fst (receive cd c h d) = Inl e"
  shows "fst (listen cd c h (d # ds)) = TaskReturned"
  using assms by (cases "receive cd c h d") auto

lemma listen_ends:
  "fst (listen cd c h ds) =
     (if \<exists>d\<in>set ds. \<exists>e. fst (receive cd c h d) = Inl e then TaskReturned else TaskReading)"
proof (induction ds arbitrary: h)
  case Nil
  show ?case by simp
next
  case (Cons d ds)
  show ?case
  proof (cases "fst (receive cd c h d)")
    case (Inl e)
    then show ?thesis
      using listen_Cons_raises [OF Inl] by auto
  next
    case (Inr r)
    let ?h' = "fst (snd (receive cd c h d))"
    have same: "(\<exists>e. fst (receive cd c ?h' x) = Inl e) \<longleftrightarrow> (\<exists>e. fst (receive cd c h x) = Inl e)"
      for x
      unfolding receive_raises_iff ..
    have "fst (listen cd c h (d # ds)) = fst (listen cd c ?h' ds)"
      by (rule listen_Cons_returns [OF Inr])
    also have "\<dots> =
        (if \<exists>x\<in>set ds. \<exists>e. fst (receive cd c ?h' x) = Inl e then TaskReturned else TaskReading)"
      by (rule Cons.IH)
    also have "\<dots> =
        (if \<exists>x\<in>set (d # ds). \<exists>e. fst (receive cd c h x) = Inl e then TaskReturned else TaskReading)"
      using Inr same by auto
    finally show ?thesis .
  qed
qed

lemma step_Deliver_off: "\<not> listening (conn w) \<Longrightarrow> step cd w (Deliver d) = w"
  by simp


text \<open>The loop on a stream in two parts: the second part is read only if the first
  part left the loop reading.\<close>

lemma listen_append:
  "listen cd c h (pre @ ds) =
     (case listen cd c h pre of
        (t, hk, fxs) \<Rightarrow>
          if t = TaskReading
          then (case listen cd c hk ds of (t', h', fx) \<Rightarrow> (t', h', fxs @ fx))
          else (t, hk, fxs))"
proof (induction pre arbitrary: h)
  case Nil
  show ?case
    by (simp split: prod.splits)
next
  case (Cons d pre)
  obtain r h1 fx1 where rc: "receive cd c h d = (r, h1, fx1)"
    by (cases "receive cd c h d")
  show ?case
  proof (cases r)
    case (Inl e)
    with rc show ?thesis
      by simp
  next
    case (Inr v)
    obtain t hk fxs where pre: "listen cd c h1 pre = (t, hk, fxs)"
      by (cases "listen cd c h1 pre")
    obtain t' h' fx where rest: "listen cd c hk ds = (t', h', fx)"
      by (cases "listen cd c hk ds")
    from Cons.IH [of h1] pre rest
    have "listen cd c h1 (pre @ ds) = (if t = TaskReading then (t', h', fxs @ fx) else (t, hk, fxs))"
      by simp
    with rc Inr pre rest show ?thesis
      by simp
  qed
qed

text \<open>
  C3, as the source has it. The loop of \<^verbatim>\<open>_listen\<close> goes on after every read on which
  \<^verbatim>\<open>receive\<close> returns, which includes an unexpected message and an invalid-command
  notice: it is then suspended in its next read, with the effects of that call added.
  It ends on the first read on which \<^verbatim>\<open>receive\<close> raises, and those are exactly: a
  read of zero bytes (the peer closed the stream), a frame that \<^verbatim>\<open>decode\<close> refuses, and
  an event, with a callback registered, whose parsing or whose callback raises. The
  loop then runs the \<^verbatim>\<open>except\<close> clause of the exception's class, after the effects of
  the failed call, and takes no further read: \<^verbatim>\<open>ConnectionResetError\<close> and
  \<^verbatim>\<open>CancelledError\<close> leave a debug record, any other exception an error record of the
  generic handler. A loop suspended in its read that \<^verbatim>\<open>close\<close> cancels takes no read
  any more and ends, with the debug record of the cancellation, when the event loop
  runs it next.
\<close>

theorem listen_ends_iff:
  "fst (listen cd c h ds) =
     (if \<exists>d\<in>set ds.
           d = [] \<or> (\<exists>e. decode cd d = Inl e) \<or>
           (\<exists>msg cb. decode cd d = Inr msg \<and> \<not> invalid_command msg \<and> is_event cd msg \<and>
              event_callback c = Some cb \<and>
              ((\<exists>e. parse_event cd msg = Inl e) \<or>
               (\<exists>ev e. parse_event cd msg = Inr ev \<and> cb ev = Some e)))
      then TaskReturned else TaskReading) \<and>
   (\<forall>hk fxs r h' fx.
      listen cd c h pre = (TaskReading, hk, fxs) \<and> receive cd c hk d = (Inr r, h', fx) \<longrightarrow>
      listen cd c h (pre @ [d]) = (TaskReading, h', fxs @ fx)) \<and>
   (\<forall>hk fxs e h' fx.
      listen cd c h pre = (TaskReading, hk, fxs) \<and> receive cd c hk d = (Inl e, h', fx) \<longrightarrow>
      listen cd c h (pre @ d # rest) = (TaskReturned, h', fxs @ fx @ listen_except e)) \<and>
   listen_except ConnectionResetError
     = [Log Debug ''Connection closed by remote host'' :: 'a effect] \<and>
   listen_except CancelledError = [Log Debug ''Listening task cancelled'' :: 'a effect] \<and>
   listen_except (OtherException cls txt)
     = [Log Error (''Error in listening task: '' @ txt) :: 'a effect] \<and>
   (listen_task (conn w) = Some TaskReading \<longrightarrow>
      step cd (step cd w Close) (Deliver later) = step cd w Close \<and>
      run cd w [Close, RunListen] =
        w\<lparr>conn := (conn w)\<lparr>listen_task := Some TaskReturned\<rparr>,
          trace := trace w @ [Log Debug ''Listening task cancelled''],
          closes := closes w @ [CloseJoin]\<rparr>)"
proof (intro conjI allI impI)
  have "fst (listen cd c h ds) =
     (if \<exists>d\<in>set ds. \<exists>e. fst (receive cd c h d) = Inl e then TaskReturned else TaskReading)"
    by (rule listen_ends)
  then show "fst (listen cd c h ds) =
     (if \<exists>d\<in>set ds.
           d = [] \<or> (\<exists>e. decode cd d = Inl e) \<or>
           (\<exists>msg cb. decode cd d = Inr msg \<and> \<not> invalid_command msg \<and> is_event cd msg \<and>
              event_callback c = Some cb \<and>
              ((\<exists>e. parse_event cd msg = Inl e) \<or>
               (\<exists>ev e. parse_event cd msg = Inr ev \<and> cb ev = Some e)))
      then TaskReturned else TaskReading)"
    unfolding receive_raises_iff by simp
next
  fix hk fxs r h' fx
  assume "listen cd c h pre = (TaskReading, hk, fxs) \<and> receive cd c hk d = (Inr r, h', fx)"
  then show "listen cd c h (pre @ [d]) = (TaskReading, h', fxs @ fx)"
    by (simp add: listen_append)
next
  fix hk fxs e h' fx
  assume "listen cd c h pre = (TaskReading, hk, fxs) \<and> receive cd c hk d = (Inl e, h', fx)"
  then show "listen cd c h (pre @ d # rest) = (TaskReturned, h', fxs @ fx @ listen_except e)"
    by (simp add: listen_append)
next
  show "listen_except ConnectionResetError
      = [Log Debug ''Connection closed by remote host'' :: 'a effect]"
    by simp
  show "listen_except CancelledError = [Log Debug ''Listening task cancelled'' :: 'a effect]"
    by simp
  show "listen_except (OtherException cls txt)
      = [Log Error (''Error in listening task: '' @ txt) :: 'a effect]"
    by simp
next
  assume t: "listen_task (conn w) = Some TaskReading"
  have cl: "step cd w Close =
      w\<lparr>conn := (conn w)\<lparr>listen_task := Some TaskReadingCancel\<rparr>,
        closes := closes w @ [CloseJoin]\<rparr>"
    using t by (simp add: close_begin_def close_joined_def)
  then have "\<not> listening (conn (step cd w Close))"
    by (simp add: listening_def)
  then show "step cd (step cd w Close) (Deliver later) = step cd w Close"
    by (rule step_Deliver_off)
  have "run cd w [Close, RunListen] = step cd (step cd w Close) RunListen"
    by (simp add: run_def)
  also have "\<dots> =
      w\<lparr>conn := (conn w)\<lparr>listen_task := Some TaskReturned\<rparr>,
        trace := trace w @ [Log Debug ''Listening task cancelled''],
        closes := closes w @ [CloseJoin]\<rparr>"
    unfolding cl by simp
  finally show "run cd w [Close, RunListen] =
      w\<lparr>conn := (conn w)\<lparr>listen_task := Some TaskReturned\<rparr>,
        trace := trace w @ [Log Debug ''Listening task cancelled''],
        closes := closes w @ [CloseJoin]\<rparr>" .
qed

theorem listen_ends_iff_witness:
  "fst (listen plain_codec (init_conn :: string conn) []
     [[111, 107],
      [73, 110, 118, 97, 108, 105, 100, 32, 67, 111, 109, 109, 97, 110, 100, 33],
      [111, 107]]) = TaskReading \<and>
   fst (listen plain_codec (init_conn :: string conn) [] [[111, 107], [], [111, 107]])
     = TaskReturned \<and>
   listen plain_codec (init_conn :: string conn) [] ([[111, 107]] @ [0] # [[111, 107]])
     = (TaskReturned, [],
        [Log Debug ''Received message: ok'', Log Warning ''Received unexpected message: ok'',
         Log Error ''Error in listening task: zero byte in frame''])"
proof -
  have none: "event_callback (init_conn :: string conn) = None"
    by (simp add: init_conn_def)
  have goes_on: "\<not> (\<exists>d\<in>set [[111, 107],
        [73, 110, 118, 97, 108, 105, 100, 32, 67, 111, 109, 109, 97, 110, 100, 33],
        [111, 107 :: 8 word]].
      d = [] \<or> (\<exists>e. decode plain_codec d = Inl e) \<or>
      (\<exists>msg cb. decode plain_codec d = Inr msg \<and> \<not> invalid_command msg \<and>
         is_event plain_codec msg \<and> event_callback (init_conn :: string conn) = Some cb \<and>
         ((\<exists>e. parse_event plain_codec msg = Inl e) \<or>
          (\<exists>ev e. parse_event plain_codec msg = Inr ev \<and> cb ev = Some e))))"
    by (simp add: none plain_decode_ok plain_decode_invalid)
  have ends: "\<exists>d\<in>set [[111, 107], [], [111, 107 :: 8 word]].
      d = [] \<or> (\<exists>e. decode plain_codec d = Inl e) \<or>
      (\<exists>msg cb. decode plain_codec d = Inr msg \<and> \<not> invalid_command msg \<and>
         is_event plain_codec msg \<and> event_callback (init_conn :: string conn) = Some cb \<and>
         ((\<exists>e. parse_event plain_codec msg = Inl e) \<or>
          (\<exists>ev e. parse_event plain_codec msg = Inr ev \<and> cb ev = Some e)))"
    by simp
  from goes_on listen_ends_iff [of plain_codec "init_conn :: string conn" "[]"
      "[[111, 107],
        [73, 110, 118, 97, 108, 105, 100, 32, 67, 111, 109, 109, 97, 110, 100, 33],
        [111, 107]]"]
  have first: "fst (listen plain_codec (init_conn :: string conn) []
     [[111, 107],
      [73, 110, 118, 97, 108, 105, 100, 32, 67, 111, 109, 109, 97, 110, 100, 33],
      [111, 107]]) = TaskReading"
    by presburger
  from ends listen_ends_iff [of plain_codec "init_conn :: string conn" "[]"
      "[[111, 107], [], [111, 107]]"]
  have second: "fst (listen plain_codec (init_conn :: string conn) []
      [[111, 107], [], [111, 107]]) = TaskReturned"
    by presburger
  have pre: "listen plain_codec (init_conn :: string conn) [] [[111, 107]] =
      (TaskReading, [],
       [Log Debug ''Received message: ok'', Log Warning ''Received unexpected message: ok''])"
    by (simp add: receive_def init_conn_def plain_decode_ok not_invalid_ok plain_not_event_ok
        unexpected_def)
  have bad: "receive plain_codec (init_conn :: string conn) [] [0] =
      (Inl (OtherException ''DecodeError'' ''zero byte in frame''), [], [])"
    by (simp add: receive_def plain_codec_def)
  from pre bad listen_ends_iff [of plain_codec "init_conn :: string conn" "[]" _
      "[[111, 107]]" "[0]" "[[111, 107]]" "''DecodeError''" "''zero byte in frame''"]
  have third: "listen plain_codec (init_conn :: string conn) [] ([[111, 107]] @ [0] # [[111, 107]])
     = (TaskReturned, [],
        [Log Debug ''Received message: ok'', Log Warning ''Received unexpected message: ok'']
        @ [] @ listen_except (OtherException ''DecodeError'' ''zero byte in frame''))"
    by blast
  from first second third show ?thesis
    by simp
qed

text \<open>
  C3 as stated fails: the stream delivers a frame that \<^verbatim>\<open>decode\<close> refuses and then a
  reply; the peer has not closed the stream and nobody has cancelled the task, yet the
  loop has ended after the first frame, the generic handler has logged the failure, and
  the reply is never read.
\<close>

theorem listen_ends_counterexample:
  "listen plain_codec (init_conn :: string conn) [] [[0], [111, 107]]
     = (TaskReturned, [], [Log Error ''Error in listening task: zero byte in frame''])"
  by (simp add: receive_def plain_codec_def)



subsection \<open>Claims about \<^verbatim>\<open>send_command\<close>\<close>

lemma send_command_drained_Done:
  assumes "send_command_drained r ph c h m = (c', h', Done out, fx)"
    and "\<forall>out'. ph \<noteq> Done out'"
  shows "(\<exists>e. out = Raised e) \<and> c' = c \<and> h' = h"
  using assms
  by (cases r) (auto simp: send_command_drained_def send_command_install_def)

lemma send_command_resume_Done:
  assumes "send_command_resume c h cl = (c', h', Done out, fx)"
    and "installed (phase cl)"
  shows "c' = finally_clause c"
proof (cases "phase cl")
  case (WaitFor f)
  with assms(1) show ?thesis
    by (auto simp: send_command_resume_def split: option.splits)
next
  case TimedOut
  with assms(1) show ?thesis
    by (auto simp: send_command_resume_def Let_def split: option.splits)
next
  case (Await g)
  with assms(1) show ?thesis
    by (auto simp: send_command_resume_def split: option.splits)
qed (use assms(2) in simp_all)

lemma send_command_resume_drain_Done:
  assumes "send_command_resume c h cl = (c', h', Done out, fx)"
    and "phase cl = DrainSleep \<or> phase cl = DrainWait"
  shows "(\<exists>e. out = Raised e) \<and> c' = c \<and> h' = h"
  using assms send_command_drained_Done [of _ DrainWait c h "cmd cl" c' h' out fx]
  by (auto simp: send_command_resume_def)

lemma send_command_timeout_not_Done:
  "(\<forall>out'. ph \<noteq> Done out') \<Longrightarrow> snd (send_command_timeout h ph) \<noteq> Done out"
  by (cases ph) (auto simp: send_command_timeout_def)

lemma step_Resume:
  assumes "i < length (calls w)"
    and "send_command_resume (conn w) (futures w) (calls w ! i) = (c', h', ph, fx)"
  shows "step cd w (Resume i) =
           w\<lparr>conn := c', futures := h', calls := (calls w)[i := (calls w ! i)\<lparr>phase := ph\<rparr>],
             trace := trace w @ fx\<rparr>"
  using assms by simp

text \<open>An event other than \<open>SendCommand\<close> and \<open>Resume\<close> completes no call.\<close>

lemma step_phase_changes:
  assumes "i < length (calls (step cd w ev))"
    and "phase (calls (step cd w ev) ! i) = Done out"
    and "i < length (calls w) \<longrightarrow> (\<forall>out'. phase (calls w ! i) \<noteq> Done out')"
  shows "(ev = Resume i \<and> i < length (calls w)) \<or>
         (\<exists>m. ev = SendCommand m \<and> i = length (calls w))"
proof (cases ev)
  case (SendCommand m)
  with assms show ?thesis
    by (auto simp: nth_append less_Suc_eq split: prod.splits)
next
  case (Timeout j)
  show ?thesis
  proof (cases "j < length (calls w)")
    case True
    obtain h' ph where t: "send_command_timeout (futures w) (phase (calls w ! j)) = (h', ph)"
      by (cases "send_command_timeout (futures w) (phase (calls w ! j))")
    have len: "i < length (calls w)"
      using assms(1) Timeout True t by simp
    have eq: "phase (calls (step cd w ev) ! i) = (if i = j then ph else phase (calls w ! i))"
      using Timeout True t len by (simp add: nth_list_update)
    have "phase (calls (step cd w ev) ! i) \<noteq> Done out"
    proof (cases "i = j")
      case True
      then have "ph \<noteq> Done out"
        using send_command_timeout_not_Done [of "phase (calls w ! i)" "futures w" out]
          assms(3) len t by simp
      with True eq show ?thesis
        by simp
    next
      case False
      with eq assms(3) len show ?thesis
        by simp
    qed
    with assms(2) show ?thesis
      by contradiction
  next
    case False
    with Timeout assms show ?thesis
      by simp
  qed
next
  case (Resume j)
  show ?thesis
  proof (cases "j < length (calls w)")
    case True
    obtain c' h' ph fx where
      r: "send_command_resume (conn w) (futures w) (calls w ! j) = (c', h', ph, fx)"
      by (cases "send_command_resume (conn w) (futures w) (calls w ! j)")
    have len: "i < length (calls w)"
      using assms(1) Resume True r by simp
    have eq: "phase (calls (step cd w ev) ! i) = (if i = j then ph else phase (calls w ! i))"
      using Resume True r len by (simp add: nth_list_update)
    have "i = j"
    proof (rule ccontr)
      assume "i \<noteq> j"
      with eq have "phase (calls (step cd w ev) ! i) = phase (calls w ! i)"
        by simp
      with assms(2,3) len show False
        by simp
    qed
    with Resume len show ?thesis
      by simp
  next
    case False
    with Resume assms show ?thesis
      by simp
  qed
next
  case StartListening
  with assms show ?thesis
    by simp
next
  case (Deliver d)
  with assms show ?thesis
    by (simp split: if_splits prod.splits)
next
  case (SetEventCallback cb)
  with assms show ?thesis
    by simp
next
  case Close
  with assms show ?thesis
    by (simp split: prod.splits)
next
  case (ResumeClose j)
  with assms show ?thesis
    by (simp split: if_splits prod.splits)
next
  case RunListen
  with assms show ?thesis
    by (simp split: option.splits prod.splits)
next
  case (ConnectionLost x)
  with assms show ?thesis
    by (simp split: prod.splits)
next
  case PauseWriting
  with assms show ?thesis
    by simp
next
  case ResumeWriting
  with assms show ?thesis
    by simp
qed

text \<open>
  C6, as the source has it. Take any event of the loop after which a call of
  \<^verbatim>\<open>send_command\<close> has completed, by returning or by raising. If the call had put its
  waiter in the slot (it was past line 27), it completed through the \<^verbatim>\<open>finally\<close>
  clause: right after that event the slot \<^verbatim>\<open>response_future\<close> is \<^verbatim>\<open>None\<close>; this
  covers the reply that arrives in time, the return after a timeout, and every exception
  raised inside the \<^verbatim>\<open>try\<close>. If the call was still in lines 21 to 24, new or suspended
  in the drain, it completed by raising what \<^verbatim>\<open>drain\<close> raised, before the \<^verbatim>\<open>try\<close>: the
  connection, and with it the slot, and the store are as the event found them. On an
  open transport that is not paused a new call does get past the drain at once and
  puts a fresh pending waiter in the slot; on a transport lost with an error it raises
  that error at once; suspended in the drain's \<^verbatim>\<open>sleep(0)\<close>, it raises
  \<^verbatim>\<open>ConnectionResetError\<close> when it runs again after the loss.
\<close>

theorem send_command_clears_slot:
  "(\<forall>i out. i < length (calls w) \<and> installed (phase (calls w ! i)) \<and>
       phase (calls (step cd w ev) ! i) = Done out \<longrightarrow>
     response_future (conn (step cd w ev)) = None) \<and>
   (\<forall>i out. i < length (calls (step cd w ev)) \<and>
       (i < length (calls w) \<longrightarrow>
          phase (calls w ! i) = DrainSleep \<or> phase (calls w ! i) = DrainWait) \<and>
       phase (calls (step cd w ev) ! i) = Done out \<longrightarrow>
     (\<exists>e. out = Raised e) \<and> conn (step cd w ev) = conn w \<and>
     futures (step cd w ev) = futures w) \<and>
   (writer (conn w) = WriterOpen \<and> \<not> writer_paused (conn w) \<longrightarrow>
     step cd w (SendCommand m) =
       w\<lparr>conn := (conn w)\<lparr>response_future := Some (length (futures w))\<rparr>,
         futures := futures w @ [Pending],
         calls := calls w @ [\<lparr>cmd = m, phase = WaitFor (length (futures w))\<rparr>],
         trace := trace w @ [Write (encode cd m), Write [0x16], Drain,
                             Log Debug (''Sent message: '' @ m)]\<rparr>) \<and>
   (\<forall>e. writer (conn w) = WriterLost (Some e) \<longrightarrow>
     step cd w (SendCommand m) =
       w\<lparr>calls := calls w @ [\<lparr>cmd = m, phase = Done (Raised e)\<rparr>],
         trace := trace w @ [Write (encode cd m), Write [0x16], Drain]\<rparr>) \<and>
   (\<forall>i x. i < length (calls w) \<and> phase (calls w ! i) = DrainSleep \<and>
       writer (conn w) = WriterLost x \<longrightarrow>
     step cd w (Resume i) =
       w\<lparr>calls := (calls w)[i := (calls w ! i)\<lparr>phase := Done (Raised ConnectionResetError)\<rparr>]\<rparr>)"
proof (intro conjI allI impI)
  fix i out
  assume a: "i < length (calls w) \<and> installed (phase (calls w ! i)) \<and>
    phase (calls (step cd w ev) ! i) = Done out"
  then have open_call: "\<forall>out'. phase (calls w ! i) \<noteq> Done out'"
    by auto
  have "i < length (calls (step cd w ev))"
    using a by (cases ev) (auto split: prod.splits option.splits)
  with a open_call step_phase_changes [of i cd w ev out] have ev: "ev = Resume i"
    by auto
  obtain c' h' ph fx where
    r: "send_command_resume (conn w) (futures w) (calls w ! i) = (c', h', ph, fx)"
    by (cases "send_command_resume (conn w) (futures w) (calls w ! i)")
  from a have len: "i < length (calls w)" and inst: "installed (phase (calls w ! i))"
    and fin: "phase (calls (step cd w ev) ! i) = Done out"
    by simp_all
  note st = step_Resume [OF len r, of cd]
  from fin ev st len have "ph = Done out" and cn: "conn (step cd w ev) = c'"
    by simp_all
  with r inst have "c' = finally_clause (conn w)"
    using send_command_resume_Done by blast
  with cn show "response_future (conn (step cd w ev)) = None"
    by (simp add: finally_clause_def)
next
  fix i out
  assume a: "i < length (calls (step cd w ev)) \<and>
    (i < length (calls w) \<longrightarrow>
       phase (calls w ! i) = DrainSleep \<or> phase (calls w ! i) = DrainWait) \<and>
    phase (calls (step cd w ev) ! i) = Done out"
  then have open_call: "i < length (calls w) \<longrightarrow> (\<forall>out'. phase (calls w ! i) \<noteq> Done out')"
    by auto
  from a open_call step_phase_changes [of i cd w ev out]
  consider (resume) "ev = Resume i" "i < length (calls w)"
    | (new) m where "ev = SendCommand m" "i = length (calls w)"
    by blast
  then have concl: "(\<exists>e. out = Raised e) \<and> conn (step cd w ev) = conn w \<and>
      futures (step cd w ev) = futures w"
  proof cases
    case resume
    obtain c' h' ph fx where
      r: "send_command_resume (conn w) (futures w) (calls w ! i) = (c', h', ph, fx)"
      by (cases "send_command_resume (conn w) (futures w) (calls w ! i)")
    note st = step_Resume [OF resume(2) r, of cd]
    from a have fin: "phase (calls (step cd w ev) ! i) = Done out"
      and dr: "phase (calls w ! i) = DrainSleep \<or> phase (calls w ! i) = DrainWait"
      using resume(2) by simp_all
    from fin resume st have "ph = Done out"
      by simp
    with r dr have "(\<exists>e. out = Raised e) \<and> c' = conn w \<and> h' = futures w"
      using send_command_resume_drain_Done by blast
    with resume(1) st show ?thesis
      by simp
  next
    case new
    obtain c' h' ph fx where
      d: "send_command_drained (fst (drain (conn w))) (snd (drain (conn w)))
            (conn w) (futures w) m = (c', h', ph, fx)"
      by (cases "send_command_drained (fst (drain (conn w))) (snd (drain (conn w)))
            (conn w) (futures w) m")
    have st: "step cd w (SendCommand m) =
        w\<lparr>conn := c', futures := h', calls := calls w @ [\<lparr>cmd = m, phase = ph\<rparr>],
          trace := trace w @ [Write (encode cd m), Write [0x16], Drain] @ fx\<rparr>"
      using d by (simp add: send_command_begin_def)
    from a have fin: "phase (calls (step cd w ev) ! i) = Done out"
      by simp
    with new st have "ph = Done out"
      by simp
    moreover have "\<forall>out'. snd (drain (conn w)) \<noteq> Done out'"
      by (simp add: drain_def split: transport.splits option.splits)
    ultimately have "(\<exists>e. out = Raised e) \<and> c' = conn w \<and> h' = futures w"
      using d send_command_drained_Done by blast
    with new(1) st show ?thesis
      by simp
  qed
  from concl show "\<exists>e. out = Raised e"
    by simp
  from concl show "conn (step cd w ev) = conn w"
    by simp
  from concl show "futures (step cd w ev) = futures w"
    by simp
next
  assume "writer (conn w) = WriterOpen \<and> \<not> writer_paused (conn w)"
  then show "step cd w (SendCommand m) =
       w\<lparr>conn := (conn w)\<lparr>response_future := Some (length (futures w))\<rparr>,
         futures := futures w @ [Pending],
         calls := calls w @ [\<lparr>cmd = m, phase = WaitFor (length (futures w))\<rparr>],
         trace := trace w @ [Write (encode cd m), Write [0x16], Drain,
                             Log Debug (''Sent message: '' @ m)]\<rparr>"
    by (simp add: send_command_begin_def send_command_drained_def send_command_install_def
        drain_def drain_helper_def)
next
  fix e
  assume "writer (conn w) = WriterLost (Some e)"
  then show "step cd w (SendCommand m) =
       w\<lparr>calls := calls w @ [\<lparr>cmd = m, phase = Done (Raised e)\<rparr>],
         trace := trace w @ [Write (encode cd m), Write [0x16], Drain]\<rparr>"
    by (simp add: send_command_begin_def send_command_drained_def drain_def)
next
  fix i x
  assume "i < length (calls w) \<and> phase (calls w ! i) = DrainSleep \<and>
    writer (conn w) = WriterLost x"
  then show "step cd w (Resume i) =
       w\<lparr>calls := (calls w)[i := (calls w ! i)\<lparr>phase := Done (Raised ConnectionResetError)\<rparr>]\<rparr>"
    by (simp add: send_command_resume_def send_command_drained_def drain_helper_def)
qed

theorem send_command_clears_slot_witness:
  "response_future (conn (step plain_codec
      \<lparr>conn = init_conn\<lparr>response_future := Some 0\<rparr>, futures = [Result ''ok''],
        calls = [\<lparr>cmd = ''status'', phase = WaitFor 0\<rparr>], trace = [], closes = []\<rparr>
      (Resume 0))) = None \<and>
   conn (step plain_codec
      \<lparr>conn = init_conn\<lparr>response_future := Some 0, writer := WriterLost None\<rparr>,
        futures = [Pending],
        calls = [\<lparr>cmd = ''a'', phase = WaitFor 0\<rparr>, \<lparr>cmd = ''b'', phase = DrainSleep\<rparr>],
        trace = [], closes = []\<rparr>
      (Resume 1))
     = init_conn\<lparr>response_future := Some 0, writer := WriterLost None\<rparr>"
proof -
  let ?w = "\<lparr>conn = init_conn\<lparr>response_future := Some 0\<rparr>, futures = [Result ''ok''],
        calls = [\<lparr>cmd = ''status'', phase = WaitFor 0\<rparr>], trace = [], closes = []\<rparr>
        :: string world"
  let ?v = "\<lparr>conn = init_conn\<lparr>response_future := Some 0, writer := WriterLost None\<rparr>,
        futures = [Pending],
        calls = [\<lparr>cmd = ''a'', phase = WaitFor 0\<rparr>, \<lparr>cmd = ''b'', phase = DrainSleep\<rparr>],
        trace = [], closes = []\<rparr> :: string world"
  have done1: "0 < length (calls ?w) \<and> installed (phase (calls ?w ! 0)) \<and>
      phase (calls (step plain_codec ?w (Resume 0)) ! 0) = Done (Returned ''ok'')"
    by (simp add: send_command_resume_def look_def)
  from send_command_clears_slot [of ?w plain_codec "Resume 0"] done1
  have first: "response_future (conn (step plain_codec ?w (Resume 0))) = None"
    by blast
  have done2: "1 < length (calls (step plain_codec ?v (Resume 1))) \<and>
      (1 < length (calls ?v) \<longrightarrow>
         phase (calls ?v ! 1) = DrainSleep \<or> phase (calls ?v ! 1) = DrainWait) \<and>
      phase (calls (step plain_codec ?v (Resume 1)) ! 1) = Done (Raised ConnectionResetError)"
    by (simp add: send_command_resume_def send_command_drained_def drain_helper_def init_conn_def)
  from send_command_clears_slot [of ?v plain_codec "Resume 1"] done2
  have second: "conn (step plain_codec ?v (Resume 1)) = conn ?v"
    by blast
  from first second show ?thesis
    by simp
qed

text \<open>
  C6 as stated fails. A command is sent and waits for its reply; the connection is
  closed; a second command is sent. The second call raises \<^verbatim>\<open>ConnectionResetError\<close>
  in its drain, before the \<^verbatim>\<open>try\<close>, and completes while the slot still holds the
  waiter of the first call.
\<close>

theorem send_command_clears_slot_counterexample:
  "run plain_codec init_world
     [SendCommand ''a'', Close, ConnectionLost None, ResumeClose 0, SendCommand ''b'', Resume 1]
   = \<lparr>conn = init_conn\<lparr>response_future := Some 0, writer := WriterLost None\<rparr>,
      futures = [Pending],
      calls = [\<lparr>cmd = ''a'', phase = WaitFor 0\<rparr>,
               \<lparr>cmd = ''b'', phase = Done (Raised ConnectionResetError)\<rparr>],
      trace = [Write (encode plain_codec ''a''), Write [0x16], Drain, Log Debug ''Sent message: a'',
               WriterClose, WaitClosed, Log Info ''Connection closed'',
               Write (encode plain_codec ''b''), Write [0x16], Drain],
      closes = [CloseDone None]\<rparr>"
  by (simp add: run_def init_world_def init_conn_def listening_def
      send_command_begin_def send_command_drained_def send_command_install_def
      drain_def drain_helper_def send_command_resume_def
      close_begin_def close_writer_def close_closed_def close_resume_def
      writer_close_def wait_closed_def connection_lost_def)

text \<open>
  C1 does not hold of the source. A command is sent, the timeout elapses, and then the
  reply arrives, before or after the call runs again. In both orders the call ends by
  raising \<^verbatim>\<open>CancelledError\<close>, it never returns the reply, and the reply is logged as
  an unexpected message.
\<close>

theorem send_command_late_reply:
  "run plain_codec init_world
     [StartListening, SendCommand ''status'', Timeout 0, Resume 0, Deliver [111, 107]]
   = \<lparr>conn = init_conn\<lparr>listen_task := Some TaskReading\<rparr>,
      futures = [Cancelled],
      calls = [\<lparr>cmd = ''status'', phase = Done (Raised CancelledError)\<rparr>],
      trace = [Write (encode plain_codec ''status''), Write [0x16], Drain,
               Log Debug ''Sent message: status'',
               Log Warning ''No response received within timeout for command: status'',
               Log Debug ''Received message: ok'',
               Log Warning ''Received unexpected message: ok''],
      closes = []\<rparr> \<and>
   run plain_codec init_world
     [StartListening, SendCommand ''status'', Timeout 0, Deliver [111, 107], Resume 0]
   = \<lparr>conn = init_conn\<lparr>listen_task := Some TaskReading\<rparr>,
      futures = [Cancelled],
      calls = [\<lparr>cmd = ''status'', phase = Done (Raised CancelledError)\<rparr>],
      trace = [Write (encode plain_codec ''status''), Write [0x16], Drain,
               Log Debug ''Sent message: status'',
               Log Debug ''Received message: ok'',
               Log Warning ''Received unexpected message: ok'',
               Log Warning ''No response received within timeout for command: status''],
      closes = []\<rparr>"
  by (simp add: run_def init_world_def init_conn_def start_listening_def listening_def
      send_command_begin_def send_command_drained_def send_command_install_def
      drain_def drain_helper_def send_command_timeout_def send_command_resume_def
      finally_clause_def look_def receive_def unexpected_def
      plain_decode_ok not_invalid_ok plain_not_event_ok)

text \<open>
  C2, as the source has it. The connection has one slot, so it refers to at most one
  waiter. A call of \<^verbatim>\<open>send_command\<close> made while the slot holds a pending waiter, on
  an open transport whose drain returns, is neither refused nor queued: it writes its
  command at once and puts a fresh waiter of its own in the slot. The first waiter is
  still pending and no longer in the slot, and the next reply resolves the second
  waiter and leaves the first one pending.
\<close>

theorem send_command_replaces_waiter:
  assumes "response_future c = Some f1"
    and "f1 < length h"
    and "look h f1 = Pending"
    and "writer c = WriterOpen"
    and "\<not> writer_paused c"
    and "data \<noteq> []"
    and "decode cd data = Inr msg"
    and "\<not> invalid_command msg"
    and "\<not> is_event cd msg"
  shows "send_command_begin cd c h m =
           (c\<lparr>response_future := Some (length h)\<rparr>, h @ [Pending], WaitFor (length h),
            [Write (encode cd m), Write [0x16], Drain, Log Debug (''Sent message: '' @ m)]) \<and>
         f1 \<noteq> length h \<and>
         look (h @ [Pending]) f1 = Pending \<and>
         look (h @ [Pending]) (length h) = Pending \<and>
         receive cd (c\<lparr>response_future := Some (length h)\<rparr>) (h @ [Pending]) data =
           (Inr (Some msg), h @ [Result msg], [Log Debug (''Received message: '' @ msg)]) \<and>
         look (h @ [Result msg]) f1 = Pending"
  using assms
  by (simp add: send_command_begin_def send_command_drained_def send_command_install_def
      drain_def drain_helper_def receive_def look_def nth_append)

theorem send_command_replaces_waiter_witness:
  "send_command_begin plain_codec (init_conn\<lparr>response_future := Some 0\<rparr>) [Pending] ''b'' =
     (init_conn\<lparr>response_future := Some 1\<rparr>, [Pending, Pending], WaitFor 1,
      [Write (encode plain_codec ''b''), Write [0x16], Drain, Log Debug ''Sent message: b'']) \<and>
   receive plain_codec (init_conn\<lparr>response_future := Some 1\<rparr>) [Pending, Pending] [111, 107] =
     (Inr (Some ''ok''), [Pending, Result ''ok''], [Log Debug ''Received message: ok''])"
proof -
  let ?c = "init_conn\<lparr>response_future := Some 0\<rparr> :: string conn"
  have slot: "response_future ?c = Some 0"
    by simp
  have inside: "0 < length [Pending]"
    by simp
  have pending: "look [Pending] 0 = Pending"
    by (simp add: look_def)
  have opened: "writer ?c = WriterOpen" and flowing: "\<not> writer_paused ?c"
    by (simp_all add: init_conn_def)
  have ne: "[111, 107] \<noteq> ([] :: bytes)"
    by simp
  show ?thesis
    using send_command_replaces_waiter
      [OF slot inside pending opened flowing ne plain_decode_ok not_invalid_ok plain_not_event_ok,
        of "''b''"]
    by simp
qed

text \<open>
  C2 as stated fails. Two commands are sent one after the other and then one reply
  arrives. The second call was neither refused nor held back: both commands are on the
  wire before any reply, and two waiters are pending at once. The reply goes to the
  second call, which returns it; the first call is still waiting on its own waiter,
  which nothing refers to any more.
\<close>

theorem send_command_overlap_counterexample:
  "run plain_codec init_world
     [StartListening, SendCommand ''a'', SendCommand ''b'', Deliver [111, 107], Resume 1, Resume 0]
   = \<lparr>conn = init_conn\<lparr>listen_task := Some TaskReading\<rparr>,
      futures = [Pending, Result ''ok''],
      calls = [\<lparr>cmd = ''a'', phase = WaitFor 0\<rparr>, \<lparr>cmd = ''b'', phase = Done (Returned ''ok'')\<rparr>],
      trace = [Write (encode plain_codec ''a''), Write [0x16], Drain, Log Debug ''Sent message: a'',
               Write (encode plain_codec ''b''), Write [0x16], Drain, Log Debug ''Sent message: b'',
               Log Debug ''Received message: ok''],
      closes = []\<rparr>"
  by (simp add: run_def init_world_def init_conn_def start_listening_def listening_def
      send_command_begin_def send_command_drained_def send_command_install_def
      drain_def drain_helper_def send_command_resume_def finally_clause_def look_def receive_def
      plain_decode_ok not_invalid_ok plain_not_event_ok)

subsection \<open>Claims about the life cycle\<close>

text \<open>
  C8. \<^verbatim>\<open>start_listening\<close> is idempotent. On a connection without a task it creates
  the task; on a connection that has one, in whatever state, it changes nothing, so no
  second task is created; hence calling it twice is calling it once. There is no path
  on which it raises.
\<close>

theorem start_listening_idempotent:
  "(listen_task c = None \<longrightarrow> start_listening c = c\<lparr>listen_task := Some TaskCreated\<rparr>) \<and>
   (listen_task c \<noteq> None \<longrightarrow> start_listening c = c) \<and>
   start_listening (start_listening c) = start_listening c"
  by (auto simp: start_listening_def split: option.splits)

theorem start_listening_idempotent_witness:
  "start_listening (init_conn :: string conn) = init_conn\<lparr>listen_task := Some TaskCreated\<rparr> \<and>
   start_listening (init_conn\<lparr>listen_task := Some TaskReading\<rparr> :: string conn)
     = init_conn\<lparr>listen_task := Some TaskReading\<rparr> \<and>
   start_listening (start_listening (init_conn :: string conn)) = start_listening init_conn"
proof -
  have none: "listen_task (init_conn :: string conn) = None"
    by (simp add: init_conn_def)
  have some: "listen_task (init_conn\<lparr>listen_task := Some TaskReading\<rparr> :: string conn) \<noteq> None"
    by simp
  from none start_listening_idempotent [of "init_conn :: string conn"]
  have first: "start_listening (init_conn :: string conn) = init_conn\<lparr>listen_task := Some TaskCreated\<rparr>"
    and twice: "start_listening (start_listening (init_conn :: string conn)) = start_listening init_conn"
    by blast+
  from some start_listening_idempotent [of "init_conn\<lparr>listen_task := Some TaskReading\<rparr> :: string conn"]
  have again: "start_listening (init_conn\<lparr>listen_task := Some TaskReading\<rparr> :: string conn)
     = init_conn\<lparr>listen_task := Some TaskReading\<rparr>"
    by blast
  from first again twice show ?thesis
    by blast
qed













end
